theory Spec2Isabelle
  imports Complex_Main "HOL-Library.AList" "HOL-Library.Multiset"
begin

section \<open>JavaScript numbers\<close>

text \<open>
  Every number of the application is a JavaScript number, an IEEE 754 binary64 value.
  The finite ones are rationals, so a finite number is a \<^typ>\<open>rat\<close> here, and an
  arithmetic operation on finite numbers is the exact operation followed by \<open>fl\<close>, the
  rounding to the nearest binary64 value (53 significant bits, ties to the even
  significand). The exponent range is not modelled: all quantities below lie far inside
  the normal range of binary64.

  Counts, scores, putts and yardages are integers (32-bit integer columns of the
  database, array lengths). Sums of such integers are exact in binary64 while they stay
  below \<open>2 ^ 53\<close>; they are computed in \<^typ>\<open>int\<close>. Quotients and the products formed
  from them are rounded with \<open>fl\<close>.
\<close>

function ilog2 :: "int \<Rightarrow> int" where
  "ilog2 n = (if n < 2 then 0 else 1 + ilog2 (n div 2))"
  by pat_completeness auto
termination
  by (relation "measure nat") auto

declare ilog2.simps [simp del]

definition pow2 :: "int \<Rightarrow> rat" where
  "pow2 e = (if 0 \<le> e then 2 ^ nat e else 1 / 2 ^ nat (- e))"

definition round_half_even :: "rat \<Rightarrow> int" where
  "round_half_even x =
     (let f = \<lfloor>x\<rfloor>; d = x - of_int f
      in if d < 1 / 2 then f else if 1 / 2 < d then f + 1 else if even f then f else f + 1)"

text \<open>The binade of a positive rational \<open>x\<close>: the \<open>e\<close> with \<open>2 ^ e \<le> x < 2 ^ (e + 1)\<close>.\<close>

definition binade :: "rat \<Rightarrow> int" where
  "binade x =
     (let (p, q) = quotient_of x; d = ilog2 p - ilog2 q
      in if pow2 d \<le> x then d else d - 1)"

definition fl :: "rat \<Rightarrow> rat" where
  "fl x =
     (if x = 0 then 0
      else let a = \<bar>x\<bar>; s = pow2 (52 - binade a)
           in sgn x * of_int (round_half_even (a * s)) / s)"

text \<open>
  A division by zero does not throw: it gives \<open>NaN\<close> (for \<open>0 / 0\<close>) or an infinity. A
  number is therefore a finite value or one of these three. The sign of zero is not
  modelled: every divisor below is an array length or a literal, so a zero divisor is
  \<open>+0\<close>.
\<close>

datatype 'a js_number = Num 'a | NaN | Infinity | NegInfinity

text \<open>\<^verbatim>\<open>a / b\<close> and \<^verbatim>\<open>a * b\<close> with a finite right operand.\<close>

fun js_div :: "rat js_number \<Rightarrow> rat \<Rightarrow> rat js_number" where
  "js_div (Num a) b =
     (if b = 0 then (if a = 0 then NaN else if 0 < a then Infinity else NegInfinity)
      else Num (fl (a / b)))"
| "js_div NaN b = NaN"
| "js_div Infinity b = (if b < 0 then NegInfinity else Infinity)"
| "js_div NegInfinity b = (if b < 0 then Infinity else NegInfinity)"

fun js_mul :: "rat js_number \<Rightarrow> rat \<Rightarrow> rat js_number" where
  "js_mul (Num a) b = Num (fl (a * b))"
| "js_mul NaN b = NaN"
| "js_mul Infinity b = (if b = 0 then NaN else if 0 < b then Infinity else NegInfinity)"
| "js_mul NegInfinity b = (if b = 0 then NaN else if 0 < b then NegInfinity else Infinity)"

text \<open>\<^verbatim>\<open>Math.round(x)\<close>: the integer nearest to \<open>x\<close>, a half rounding towards \<open>+\<infinity>\<close>;
  \<open>NaN\<close> and the infinities are returned as they are.\<close>

fun Math_round :: "rat js_number \<Rightarrow> int js_number" where
  "Math_round (Num x) = Num \<lfloor>x + 1 / 2\<rfloor>"
| "Math_round NaN = NaN"
| "Math_round Infinity = Infinity"
| "Math_round NegInfinity = NegInfinity"

text \<open>An integer result read as a number again.\<close>

fun of_integer_number :: "int js_number \<Rightarrow> rat js_number" where
  "of_integer_number (Num k) = Num (of_int k)"
| "of_integer_number NaN = NaN"
| "of_integer_number Infinity = Infinity"
| "of_integer_number NegInfinity = NegInfinity"

text \<open>
  Two expressions occur again and again in the screens and are named here:
  \<^verbatim>\<open>Math.round(h / n * 100)\<close>, a percentage, and \<^verbatim>\<open>Math.round(s / n * 10) / 10\<close>, an
  average with one decimal. The operations are rounded in the order they are written.
\<close>

definition round_pct :: "nat \<Rightarrow> nat \<Rightarrow> int js_number" where
  "round_pct h n = Math_round (js_mul (js_div (Num (of_nat h)) (of_nat n)) 100)"

definition round_tenth :: "int \<Rightarrow> nat \<Rightarrow> rat js_number" where
  "round_tenth s n =
     js_div (of_integer_number (Math_round (js_mul (js_div (Num (of_int s)) (of_nat n)) 10))) 10"

text \<open>
  The integer columns of the database are 32-bit (\<^verbatim>\<open>int\<close> in the schema): a write of a
  value outside this range is refused.
\<close>

definition int4 :: "int \<Rightarrow> bool" where
  "int4 n \<longleftrightarrow> - (2 ^ 31) \<le> n \<and> n < 2 ^ 31"

fun int4_or_null :: "int option \<Rightarrow> bool" where
  "int4_or_null None = True"
| "int4_or_null (Some n) = int4 n"

text \<open>\<^verbatim>\<open>arr.slice(start)\<close>: a negative \<open>start\<close> counts from the end.\<close>

definition js_slice :: "int \<Rightarrow> 'a list \<Rightarrow> 'a list" where
  "js_slice start xs =
     (let len = int (length xs);
          k = (if start < 0 then max (len + start) 0 else min start len)
      in drop (nat k) xs)"

text \<open>\<^verbatim>\<open>arr[i]\<close>: \<open>undefined\<close> (\<open>None\<close>) outside the array.\<close>

definition js_index :: "'a list \<Rightarrow> int \<Rightarrow> 'a option" where
  "js_index xs i = (if 0 \<le> i \<and> i < int (length xs) then Some (xs ! nat i) else None)"

text \<open>\<^verbatim>\<open>!x\<close> on a possibly absent integer: true for \<open>null\<close>/\<open>undefined\<close> and for \<open>0\<close> only.\<close>

fun falsy :: "int option \<Rightarrow> bool" where
  "falsy None = True"
| "falsy (Some n) = (n = 0)"

text \<open>\<^verbatim>\<open>x || 0\<close> on a possibly absent integer; also \<^verbatim>\<open>s + x\<close>, where \<open>null\<close> counts \<open>0\<close>.\<close>

fun or0 :: "int option \<Rightarrow> int" where
  "or0 None = 0"
| "or0 (Some n) = n"

text \<open>
  A \<^verbatim>\<open>Map<K, V[]>\<close> keeps its keys in insertion order: an association list. The idiom
  \<^verbatim>\<open>if (!m.has(k)) m.set(k, []); m.get(k).push(v)\<close> appends \<open>v\<close> to the entry of \<open>k\<close>,
  creating the entry at the end when \<open>k\<close> is new.
\<close>

definition map_push :: "'k \<Rightarrow> 'v \<Rightarrow> ('k \<times> 'v list) list \<Rightarrow> ('k \<times> 'v list) list" where
  "map_push k v m = AList.map_default k [v] (\<lambda>l. l @ [v]) m"

text \<open>\<^verbatim>\<open>m.get(k) || []\<close>\<close>

definition map_get :: "('k \<times> 'v list) list \<Rightarrow> 'k \<Rightarrow> 'v list" where
  "map_get m k = (case map_of m k of Some l \<Rightarrow> l | None \<Rightarrow> [])"

section \<open>Score classification (components/ScoreCell.tsx)\<close>

text \<open>
  \<^verbatim>\<open>ScoreCell({ score, par, size, mini })\<close> renders one hole score. Each of its seven
  return statements draws a different decoration; the decoration is the category of the
  score:
  \<^item> a dash for a falsy \<open>score\<close> or \<open>par\<close> (\<open>Unknown\<close>);
  \<^item> a double gold circle (\<open>EagleOrBetter\<close>), a single gold circle (\<open>Birdie\<close>);
  \<^item> no decoration (\<open>Par\<close>);
  \<^item> a single, double or triple box (\<open>Bogey\<close>, \<open>DoubleBogey\<close>, \<open>TripleOrWorse\<close>).

  The props are JavaScript numbers holding integers; an absent prop is \<open>undefined\<close>,
  written \<open>None\<close>. The props \<open>size\<close> and \<open>mini\<close> only scale the drawing.
\<close>

datatype Category =
  Unknown | EagleOrBetter | Birdie | Par | Bogey | DoubleBogey | TripleOrWorse

definition ScoreCell :: "int option \<Rightarrow> int option \<Rightarrow> Category" where
  "ScoreCell score par =
     (if falsy score \<or> falsy par then Unknown
      else let diff = or0 score - or0 par in
        if diff \<le> -2 then EagleOrBetter
        else if diff = -1 then Birdie
        else if diff = 0 then Par
        else if diff = 1 then Bogey
        else if diff = 2 then DoubleBogey
        else TripleOrWorse)"

section \<open>The tables (supabase/schema.sql)\<close>

text \<open>
  The rows the queries return. A nullable column is an \<open>option\<close>. Identifiers are uuid
  strings. A \<open>date\<close> column is a day number: only the order of dates is used. The columns
  \<open>par\<close>, \<open>fairway_miss_dir\<close> and \<open>wedge_and_in\<close> of \<open>sb_hole_scores\<close> are the ones the
  screens select.
\<close>

type_synonym uuid = string
type_synonym date = int

record user_row =
  u_id :: uuid
  u_display_name :: "string option"
  u_username :: string

record relationship_row =
  rel_user_id :: uuid
  rel_target_id :: uuid
  rel_type :: string
  rel_status :: "string option"

record course_row =
  c_id :: uuid
  c_name :: string
  c_city :: "string option"
  c_state :: "string option"

record round_row =
  r_id :: uuid
  r_user_id :: uuid
  r_course_id :: "uuid option"
  r_date_played :: date
  r_total_score :: "int option"
  r_weather :: "string option"
  r_is_complete :: "bool option"
  r_visibility :: "string option"

record hole_row =
  h_id :: uuid
  h_round_id :: uuid
  h_hole_number :: int
  h_par :: "int option"
  h_score :: "int option"
  h_putts :: "int option"
  h_fairway_hit :: "bool option"
  h_fairway_miss_dir :: "string option"
  h_gir :: "bool option"
  h_penalties :: "int option"
  h_wedge_and_in :: "int option"

record shot_row =
  s_hole_score_id :: "uuid option"
  s_club :: "string option"
  s_distance_yards :: "int option"

record database =
  sb_users :: "user_row list"
  sb_relationships :: "relationship_row list"
  sb_courses :: "course_row list"
  sb_rounds :: "round_row list"
  sb_hole_scores :: "hole_row list"
  sb_shots :: "shot_row list"

text \<open>
  \<^verbatim>\<open>.order(col, { ascending })\<close> is a stable sort here; SQL leaves the order of rows with
  equal keys open. \<^verbatim>\<open>.limit(n)\<close> is \<open>take n\<close>.
\<close>

definition order_asc :: "('a \<Rightarrow> int) \<Rightarrow> 'a list \<Rightarrow> 'a list" where
  "order_asc col rows = sort_key col rows"

definition order_desc :: "('a \<Rightarrow> int) \<Rightarrow> 'a list \<Rightarrow> 'a list" where
  "order_desc col rows = sort_key (\<lambda>r. - col r) rows"

section \<open>The feed (app/(tabs)/feed.tsx)\<close>

record FeedRound =
  fr_id :: uuid
  fr_date_played :: date
  fr_total_score :: "int option"
  fr_weather :: "string option"
  fr_user_id :: uuid
  fr_visibility :: "string option"
  fr_course :: "course_row option"
  fr_player :: "user_row option"
  fairway_pct :: "int js_number option"
  gir_pct :: "int js_number option"
  avg_putts :: "rat js_number option"
  birdies :: nat
  eagles :: nat
  wedge_total :: "int option"

text \<open>\<^verbatim>\<open>scoresByRound\<close>: the fetched hole scores grouped by \<open>round_id\<close>.\<close>

definition scoresByRound :: "hole_row list \<Rightarrow> (uuid \<times> hole_row list) list" where
  "scoresByRound scores = foldl (\<lambda>m s. map_push (h_round_id s) s m) [] scores"

text \<open>
  \<^verbatim>\<open>wedgeTotalsByRound\<close>: only \<open>has\<close> and \<open>get\<close> are used on this map, so it is a
  function. The rows come from a query with \<^verbatim>\<open>.not('wedge_and_in', 'is', null)\<close>.
\<close>

definition wedgeTotalsByRound :: "hole_row list \<Rightarrow> (uuid \<rightharpoonup> int)" where
  "wedgeTotalsByRound wedgeScores =
     foldl (\<lambda>m ws. case h_wedge_and_in ws of
                       Some w \<Rightarrow> m(h_round_id ws \<mapsto> or0 (m (h_round_id ws)) + w)
                     | None \<Rightarrow> m)
           Map.empty wedgeScores"

text \<open>The statistics of one feed entry, from the hole scores \<open>hs\<close> of its round.\<close>

definition feed_fairway_pct :: "hole_row list \<Rightarrow> int js_number option" where
  "feed_fairway_pct hs =
     (let fwHoles = filter (\<lambda>h. h_fairway_hit h \<noteq> None) hs
      in if length fwHoles \<noteq> 0
         then Some (round_pct (length (filter (\<lambda>h. h_fairway_hit h = Some True) fwHoles)) (length fwHoles))
         else None)"

definition feed_gir_pct :: "hole_row list \<Rightarrow> int js_number option" where
  "feed_gir_pct hs =
     (let girHoles = filter (\<lambda>h. h_gir h \<noteq> None) hs
      in if length girHoles \<noteq> 0
         then Some (round_pct (length (filter (\<lambda>h. h_gir h = Some True) girHoles)) (length girHoles))
         else None)"

definition feed_avg_putts :: "hole_row list \<Rightarrow> rat js_number option" where
  "feed_avg_putts hs =
     (let puttHoles = filter (\<lambda>h. h_putts h \<noteq> None) hs
      in if length puttHoles \<noteq> 0
         then Some (round_tenth (foldl (\<lambda>s h. s + or0 (h_putts h)) 0 puttHoles) (length puttHoles))
         else None)"

definition feed_birdies :: "hole_row list \<Rightarrow> nat" where
  "feed_birdies hs =
     length (filter (\<lambda>h. \<not> falsy (h_score h) \<and> \<not> falsy (h_par h) \<and>
                          or0 (h_score h) = or0 (h_par h) - 1) hs)"

definition feed_eagles :: "hole_row list \<Rightarrow> nat" where
  "feed_eagles hs =
     length (filter (\<lambda>h. \<not> falsy (h_score h) \<and> \<not> falsy (h_par h) \<and>
                          or0 (h_score h) \<le> or0 (h_par h) - 2) hs)"

text \<open>
  \<^verbatim>\<open>loadFeed\<close> for the signed-in user \<open>uid\<close> (without a user it returns at once). The
  queries are filters on the tables; \<^verbatim>\<open>sb_courses(id, name, city, state)\<close> joins the
  course of the round.
\<close>

definition followingIds :: "uuid \<Rightarrow> database \<Rightarrow> uuid list" where
  "followingIds uid db =
     map rel_target_id
       (filter (\<lambda>r. rel_user_id r = uid \<and> rel_type r = ''follow'' \<and>
                     rel_status r = Some ''accepted'')
               (sb_relationships db))"

definition feed_roundsData :: "uuid \<Rightarrow> database \<Rightarrow> round_row list" where
  "feed_roundsData uid db =
     (let visibleUserIds = uid # followingIds uid db
      in take 50 (order_desc r_date_played
           (filter (\<lambda>r. r_is_complete r = Some True \<and> r_user_id r \<in> set visibleUserIds)
                   (sb_rounds db))))"

definition loadFeed :: "uuid \<Rightarrow> database \<Rightarrow> FeedRound list" where
  "loadFeed uid db =
     (let roundsData = feed_roundsData uid db;
          roundIds = map r_id roundsData;
          byRound = scoresByRound
            (filter (\<lambda>h. h_round_id h \<in> set roundIds) (sb_hole_scores db));
          wedgeTotals = wedgeTotalsByRound
            (filter (\<lambda>h. h_round_id h \<in> set roundIds \<and> h_wedge_and_in h \<noteq> None)
                    (sb_hole_scores db))
      in map (\<lambda>r.
           let hs = map_get byRound (r_id r)
           in \<lparr> fr_id = r_id r,
                fr_date_played = r_date_played r,
                fr_total_score = r_total_score r,
                fr_weather = r_weather r,
                fr_user_id = r_user_id r,
                fr_visibility = r_visibility r,
                fr_course = (case r_course_id r of
                               Some cid \<Rightarrow> find (\<lambda>c. c_id c = cid) (sb_courses db)
                             | None \<Rightarrow> None),
                fr_player = find (\<lambda>u. u_id u = r_user_id r) (sb_users db),
                fairway_pct = feed_fairway_pct hs,
                gir_pct = feed_gir_pct hs,
                avg_putts = feed_avg_putts hs,
                birdies = feed_birdies hs,
                eagles = feed_eagles hs,
                wedge_total = wedgeTotals (r_id r) \<rparr>)
         roundsData)"

subsection \<open>Editing a round in the feed\<close>

text \<open>
  The state of the screen. (The flags \<open>refreshing\<close>, \<open>loadingScores\<close> and \<open>saving\<close> only
  drive the display.) When the screen is mounted \<^verbatim>\<open>loadFeed\<close> runs, which ends with
  \<^verbatim>\<open>setRounds(feed)\<close>; \<^verbatim>\<open>onRefresh\<close> runs it again.
\<close>

record feed_state =
  rounds_feed :: "FeedRound list"
  expandedId :: "uuid option"
  holeScores :: "hole_row list"
  editing :: bool
  editScores :: "hole_row list"

definition feed_initial :: "uuid \<Rightarrow> database \<Rightarrow> feed_state" where
  "feed_initial uid db =
     \<lparr> rounds_feed = loadFeed uid db, expandedId = None, holeScores = [],
       editing = False, editScores = [] \<rparr>"

definition onRefresh :: "uuid \<Rightarrow> database \<Rightarrow> feed_state \<Rightarrow> feed_state" where
  "onRefresh uid db st = st\<lparr>rounds_feed := loadFeed uid db\<rparr>"

text \<open>
  \<^verbatim>\<open>toggleExpand(roundId)\<close> closes the open card, or opens the card of \<open>roundId\<close> and
  fetches the hole scores of the round into \<open>holeScores\<close>; \<^verbatim>\<open>startEdit\<close> copies them
  into \<open>editScores\<close>; each input of the edit row calls
  \<^verbatim>\<open>updateEditScore(idx, field, value)\<close>; \<^verbatim>\<open>saveEdits(roundId)\<close> writes the rows back
  and recomputes the total of the round.
\<close>

definition fetch_holeScores :: "uuid \<Rightarrow> database \<Rightarrow> hole_row list" where
  "fetch_holeScores roundId db =
     order_asc h_hole_number (filter (\<lambda>h. h_round_id h = roundId) (sb_hole_scores db))"

definition toggleExpand :: "uuid \<Rightarrow> database \<Rightarrow> feed_state \<Rightarrow> feed_state" where
  "toggleExpand roundId db st =
     (if expandedId st = Some roundId
      then st\<lparr>expandedId := None, holeScores := [], editing := False\<rparr>
      else st\<lparr>expandedId := Some roundId, editing := False,
              holeScores := fetch_holeScores roundId db\<rparr>)"

definition startEdit :: "feed_state \<Rightarrow> feed_state" where
  "startEdit st = st\<lparr>editScores := holeScores st, editing := True\<rparr>"

definition cancelEdit :: "feed_state \<Rightarrow> feed_state" where
  "cancelEdit st = st\<lparr>editing := False, editScores := []\<rparr>"

text \<open>
  The four fields the edit row offers with the values it passes: \<^verbatim>\<open>parseInt(v) || 0\<close>
  for the score and the putts, an integer of any size (the text has no length limit),
  and \<^verbatim>\<open>!hole.fairway_hit\<close>, \<^verbatim>\<open>!hole.gir\<close>.
\<close>

datatype hole_edit =
  Edit_score int | Edit_putts int | Edit_fairway_hit bool | Edit_gir bool

fun apply_edit :: "hole_edit \<Rightarrow> hole_row \<Rightarrow> hole_row" where
  "apply_edit (Edit_score v) h = h\<lparr>h_score := Some v\<rparr>"
| "apply_edit (Edit_putts v) h = h\<lparr>h_putts := Some v\<rparr>"
| "apply_edit (Edit_fairway_hit v) h = h\<lparr>h_fairway_hit := Some v\<rparr>"
| "apply_edit (Edit_gir v) h = h\<lparr>h_gir := Some v\<rparr>"

text \<open>
  \<^verbatim>\<open>updateEditScore\<close> copies the array and replaces one element. The edit row is
  rendered once per element of \<open>editScores\<close>, so \<open>idx\<close> is always inside the array.
  Outside, JavaScript would extend the array with an object that has the edited field
  only, which is no hole row: \<open>None\<close>.
\<close>

definition updateEditScore :: "nat \<Rightarrow> hole_edit \<Rightarrow> feed_state \<Rightarrow> feed_state option" where
  "updateEditScore idx e st =
     (let prev = editScores st
      in if idx < length prev
         then Some (st\<lparr>editScores := prev[idx := apply_edit e (prev ! idx)]\<rparr>)
         else None)"

text \<open>
  \<^verbatim>\<open>supabase.from('sb_hole_scores').update({...}).eq('id', hole.id)\<close> and
  \<^verbatim>\<open>supabase.from('sb_rounds').update({ total_score }).eq('id', roundId)\<close>. The
  database refuses an update with a value outside the range of its integer column; the
  call then resolves with an error object (it does not throw), and \<^verbatim>\<open>saveEdits\<close> does
  not read the result of its calls: the table is left as it was.
\<close>

definition update_hole_score :: "hole_row \<Rightarrow> hole_row list \<Rightarrow> hole_row list" where
  "update_hole_score hole tbl =
     (if int4_or_null (h_score hole) \<and> int4_or_null (h_putts hole)
      then map (\<lambda>h. if h_id h = h_id hole
                     then h\<lparr>h_score := h_score hole, h_putts := h_putts hole,
                             h_fairway_hit := h_fairway_hit hole, h_gir := h_gir hole\<rparr>
                     else h) tbl
      else tbl)"

definition update_total_score :: "uuid \<Rightarrow> int \<Rightarrow> round_row list \<Rightarrow> round_row list" where
  "update_total_score roundId n tbl =
     (if int4 n
      then map (\<lambda>r. if r_id r = roundId then r\<lparr>r_total_score := Some n\<rparr> else r) tbl
      else tbl)"

text \<open>\<^verbatim>\<open>editScores.reduce((sum, h) => sum + (h.score || 0), 0)\<close>\<close>

definition newTotal :: "hole_row list \<Rightarrow> int" where
  "newTotal es = foldl (\<lambda>sum h. sum + or0 (h_score h)) 0 es"

definition saveEdits :: "uuid \<Rightarrow> database \<Rightarrow> feed_state \<Rightarrow> database \<times> feed_state" where
  "saveEdits roundId db st =
     (let tbl = foldl (\<lambda>t hole. update_hole_score hole t) (sb_hole_scores db) (editScores st);
          n = newTotal (editScores st)
      in (db\<lparr>sb_hole_scores := tbl,
              sb_rounds := update_total_score roundId n (sb_rounds db)\<rparr>,
          st\<lparr>holeScores := editScores st, editing := False,
              rounds_feed := map (\<lambda>r. if fr_id r = roundId
                                        then r\<lparr>fr_total_score := Some n\<rparr> else r)
                                 (rounds_feed st)\<rparr>))"

text \<open>
  \<^verbatim>\<open>deleteRound(roundId)\<close>, once confirmed.
\<close>

definition deleteRound :: "uuid \<Rightarrow> database \<Rightarrow> feed_state \<Rightarrow> database \<times> feed_state" where
  "deleteRound roundId db st =
     (db\<lparr>sb_hole_scores := filter (\<lambda>h. h_round_id h \<noteq> roundId) (sb_hole_scores db),
         sb_rounds := filter (\<lambda>r. r_id r \<noteq> roundId) (sb_rounds db)\<rparr>,
      st\<lparr>rounds_feed := filter (\<lambda>r. fr_id r \<noteq> roundId) (rounds_feed st),
         expandedId := None, holeScores := []\<rparr>)"

text \<open>
  What the user can do on the screen, and when. A card is drawn for each round of the
  feed and a tap on it calls \<^verbatim>\<open>toggleExpand\<close>. The open card of a round of the user's
  own (\<^verbatim>\<open>isOwn\<close>) has the buttons Edit and Delete while \<open>editing\<close> is off, and Cancel and
  Save while it is on; the inputs of the edit rows are drawn while \<open>editing\<close> is on.
  \<open>reachable uid db st\<close>: the user \<open>uid\<close> can bring the screen into the state \<open>st\<close> with the
  database \<open>db\<close>. The calls are taken one after the other, and nothing else writes to
  the database meanwhile.
\<close>

definition isOwn :: "uuid \<Rightarrow> uuid \<Rightarrow> feed_state \<Rightarrow> bool" where
  "isOwn uid roundId st \<longleftrightarrow>
     list_ex (\<lambda>item. fr_id item = roundId \<and> fr_user_id item = uid) (rounds_feed st)"

inductive reachable :: "uuid \<Rightarrow> database \<Rightarrow> feed_state \<Rightarrow> bool" for uid :: uuid where
  mounted: "reachable uid db (feed_initial uid db)"
| refreshed: "reachable uid db st \<Longrightarrow> reachable uid db (onRefresh uid db st)"
| toggled:
    "reachable uid db st \<Longrightarrow> roundId \<in> fr_id ` set (rounds_feed st) \<Longrightarrow>
     reachable uid db (toggleExpand roundId db st)"
| started:
    "reachable uid db st \<Longrightarrow> expandedId st = Some roundId \<Longrightarrow> isOwn uid roundId st \<Longrightarrow>
     \<not> editing st \<Longrightarrow> reachable uid db (startEdit st)"
| cancelled:
    "reachable uid db st \<Longrightarrow> expandedId st = Some roundId \<Longrightarrow> isOwn uid roundId st \<Longrightarrow>
     editing st \<Longrightarrow> reachable uid db (cancelEdit st)"
| typed:
    "reachable uid db st \<Longrightarrow> editing st \<Longrightarrow> updateEditScore idx e st = Some st' \<Longrightarrow>
     reachable uid db st'"
| saved:
    "reachable uid db st \<Longrightarrow> expandedId st = Some roundId \<Longrightarrow> isOwn uid roundId st \<Longrightarrow>
     editing st \<Longrightarrow> saveEdits roundId db st = (db', st') \<Longrightarrow> reachable uid db' st'"
| deleted:
    "reachable uid db st \<Longrightarrow> expandedId st = Some roundId \<Longrightarrow> isOwn uid roundId st \<Longrightarrow>
     \<not> editing st \<Longrightarrow> deleteRound roundId db st = (db', st') \<Longrightarrow> reachable uid db' st'"

text \<open>
  An edit session of the user \<open>uid\<close> on the round \<open>roundId\<close>: tap the closed card, press
  Edit, type into the edit rows; \<open>None\<close> when a control is not there. \<open>edit_round\<close> ends
  the session with Save.
\<close>

fun apply_edits :: "(nat \<times> hole_edit) list \<Rightarrow> feed_state \<Rightarrow> feed_state option" where
  "apply_edits [] st = Some st"
| "apply_edits ((idx, e) # rest) st =
     (case updateEditScore idx e st of None \<Rightarrow> None | Some st' \<Rightarrow> apply_edits rest st')"

definition edit_session ::
  "uuid \<Rightarrow> uuid \<Rightarrow> (nat \<times> hole_edit) list \<Rightarrow> database \<Rightarrow> feed_state \<Rightarrow> feed_state option" where
  "edit_session uid roundId edits db st =
     (let st1 = toggleExpand roundId db st
      in if roundId \<in> fr_id ` set (rounds_feed st) \<and> expandedId st1 = Some roundId \<and>
            isOwn uid roundId st1
         then apply_edits edits (startEdit st1)
         else None)"

definition edit_round ::
  "uuid \<Rightarrow> uuid \<Rightarrow> (nat \<times> hole_edit) list \<Rightarrow> database \<Rightarrow> feed_state \<Rightarrow>
   (database \<times> feed_state) option" where
  "edit_round uid roundId edits db st =
     map_option (saveEdits roundId db) (edit_session uid roundId edits db st)"

text \<open>The sum of the hole scores the table holds for a round (\<open>null\<close> counts \<open>0\<close>).\<close>

definition round_score_sum :: "uuid \<Rightarrow> database \<Rightarrow> int" where
  "round_score_sum roundId db =
     sum_list (map (\<lambda>h. or0 (h_score h))
                   (filter (\<lambda>h. h_round_id h = roundId) (sb_hole_scores db)))"

subsection \<open>The earlier feed with the visibility filter\<close>

text \<open>
  The earlier revision of \<^verbatim>\<open>loadFeed\<close> (second half of the file) fetches the 50 most
  recent completed rounds of all users and filters them by visibility. Its relationship
  query selects the accepted rows that name the user on either side, of any type.
\<close>

definition partnerIds :: "uuid \<Rightarrow> database \<Rightarrow> uuid list" where
  "partnerIds uid db =
     map (\<lambda>r. if rel_user_id r = uid then rel_target_id r else rel_user_id r)
       (filter (\<lambda>r. (rel_user_id r = uid \<or> rel_target_id r = uid) \<and>
                     rel_status r = Some ''accepted'')
               (sb_relationships db))"

text \<open>The callback of \<^verbatim>\<open>roundsData.filter\<close>.\<close>

definition isVisible :: "uuid \<Rightarrow> uuid list \<Rightarrow> round_row \<Rightarrow> bool" where
  "isVisible uid partners r =
     (if r_user_id r = uid then True
      else if r_visibility r = Some ''public'' then True
      else if r_visibility r = Some ''partners'' \<and> r_user_id r \<in> set partners then True
      else False)"

definition loadFeed_v1 ::
  "uuid \<Rightarrow> database \<Rightarrow>
   (round_row \<times> int js_number option \<times> int js_number option \<times> rat js_number option) list" where
  "loadFeed_v1 uid db =
     (let partners = partnerIds uid db;
          roundsData = take 50 (order_desc r_date_played
                         (filter (\<lambda>r. r_is_complete r = Some True) (sb_rounds db)));
          roundIds = map r_id roundsData;
          byRound = scoresByRound
            (filter (\<lambda>h. h_round_id h \<in> set roundIds) (sb_hole_scores db))
      in map (\<lambda>r. let hs = map_get byRound (r_id r)
                  in (r, feed_fairway_pct hs, feed_gir_pct hs, feed_avg_putts hs))
           (filter (isVisible uid partners) roundsData))"

section \<open>The statistics screen (component \<open>Stats\<close>)\<close>

datatype RangeOption = Range_all | Last_3 | Last_5 | Last_10 | Last_25

text \<open>The keys are the strings \<^verbatim>\<open>'all' | '3' | '5' | '10' | '25'\<close>; \<^verbatim>\<open>parseInt(range)\<close>
  is applied to the numeric ones only.\<close>

fun parseInt_range :: "RangeOption \<Rightarrow> int" where
  "parseInt_range Last_3 = 3"
| "parseInt_range Last_5 = 5"
| "parseInt_range Last_10 = 10"
| "parseInt_range Last_25 = 25"
| "parseInt_range Range_all = 0"

record ClubStat =
  club :: string
  avgDistance :: "int js_number"
  count_shots :: nat

text \<open>
  The club distances. \<^verbatim>\<open>clubMap\<close> collects the distances per club, skipping a shot
  whose \<open>club\<close> or \<open>distance_yards\<close> is falsy (\<open>null\<close>, the empty string, \<open>0\<close>); the
  entries are averaged and sorted with the comparator
  \<^verbatim>\<open>(a, b) => b.avgDistance - a.avgDistance\<close>. \<^verbatim>\<open>Array.prototype.sort\<close> is stable.
  On finite averages the comparator is the descending order. With an average that is
  not finite it returns \<open>NaN\<close>, which \<^verbatim>\<open>sort\<close> reads as \<open>0\<close>; the comparator is then no
  order and JavaScript leaves the result open; such an entry has the key \<open>0\<close> here.
\<close>

definition desc_avgDistance :: "ClubStat \<Rightarrow> int" where
  "desc_avgDistance c = (case avgDistance c of Num d \<Rightarrow> - d | _ \<Rightarrow> 0)"

definition clubMap :: "shot_row list \<Rightarrow> (string \<times> int list) list" where
  "clubMap shots =
     foldl (\<lambda>m s. case (s_club s, s_distance_yards s) of
                     (Some c, Some d) \<Rightarrow> if c = [] \<or> d = 0 then m else map_push c d m
                   | _ \<Rightarrow> m)
           [] shots"

definition clubStats :: "shot_row list \<Rightarrow> ClubStat list" where
  "clubStats shots =
     sort_key desc_avgDistance
       (map (\<lambda>(c, dists).
               \<lparr> club = c,
                 avgDistance = Math_round (js_div (Num (of_int (foldl (\<lambda>a b. a + b) 0 dists)))
                                                  (of_nat (length dists))),
                 count_shots = length dists \<rparr>)
            (clubMap shots))"

text \<open>
  The state \<^verbatim>\<open>loadStats\<close> sets. (It also sets the projection of the ten most recent
  rounds and the wedge totals, which no statistic below reads.) The shots query has no
  user filter: \<^verbatim>\<open>.not('club', 'is', null).not('distance_yards', 'is', null)\<close>.
\<close>

record stats_state =
  allRounds :: "round_row list"
  allScoresByRound :: "(uuid \<times> hole_row list) list"
  clubs :: "ClubStat list"

definition loadStats :: "uuid \<Rightarrow> database \<Rightarrow> stats_state" where
  "loadStats uid db =
     (let rds = order_asc r_date_played
                  (filter (\<lambda>r. r_user_id r = uid \<and> r_is_complete r = Some True) (sb_rounds db));
          roundIds = map r_id rds
      in if length roundIds \<noteq> 0 then
           let scores = order_asc h_hole_number
                          (filter (\<lambda>h. h_round_id h \<in> set roundIds) (sb_hole_scores db));
               byRound = scoresByRound scores;
               shots = filter (\<lambda>s. s_club s \<noteq> None \<and> s_distance_yards s \<noteq> None) (sb_shots db)
           in \<lparr> allRounds = rds, allScoresByRound = byRound,
                clubs = (if length shots \<noteq> 0 then clubStats shots else []) \<rparr>
         else \<lparr> allRounds = rds, allScoresByRound = [], clubs = [] \<rparr>)"

text \<open>The values computed at each render from the state and the selected range \<open>rng\<close>.\<close>

definition filteredRounds :: "RangeOption \<Rightarrow> stats_state \<Rightarrow> round_row list" where
  "filteredRounds rng st =
     (if rng = Range_all then allRounds st
      else js_slice (- parseInt_range rng) (allRounds st))"

definition filteredScores :: "RangeOption \<Rightarrow> stats_state \<Rightarrow> hole_row list" where
  "filteredScores rng st =
     (let filteredIds = set (map r_id (filteredRounds rng st))
      in concat (map snd (filter (\<lambda>(roundId, scores). roundId \<in> filteredIds)
                                 (allScoresByRound st))))"

definition avgScore :: "RangeOption \<Rightarrow> stats_state \<Rightarrow> rat js_number" where
  "avgScore rng st =
     (let rounds = filteredRounds rng st
      in if length rounds \<noteq> 0
         then round_tenth (foldl (\<lambda>s r. s + or0 (r_total_score r)) 0 rounds) (length rounds)
         else Num 0)"

definition fwPct :: "RangeOption \<Rightarrow> stats_state \<Rightarrow> int js_number" where
  "fwPct rng st =
     (let fwHoles = filter (\<lambda>s. h_fairway_hit s \<noteq> None) (filteredScores rng st)
      in if length fwHoles \<noteq> 0
         then round_pct (length (filter (\<lambda>s. h_fairway_hit s = Some True) fwHoles)) (length fwHoles)
         else Num 0)"

definition girPct :: "RangeOption \<Rightarrow> stats_state \<Rightarrow> int js_number" where
  "girPct rng st =
     (let girHoles = filter (\<lambda>s. h_gir s \<noteq> None) (filteredScores rng st)
      in if length girHoles \<noteq> 0
         then round_pct (length (filter (\<lambda>s. h_gir s = Some True) girHoles)) (length girHoles)
         else Num 0)"

definition avgPutts :: "RangeOption \<Rightarrow> stats_state \<Rightarrow> rat js_number" where
  "avgPutts rng st =
     (let rounds = filteredRounds rng st;
          puttHoles = filter (\<lambda>s. h_putts s \<noteq> None) (filteredScores rng st)
      in if length puttHoles \<noteq> 0 \<and> length rounds \<noteq> 0
         then round_tenth (foldl (\<lambda>s h. s + or0 (h_putts h)) 0 puttHoles) (length rounds)
         else Num 0)"

definition missLPct :: "RangeOption \<Rightarrow> stats_state \<Rightarrow> int js_number" where
  "missLPct rng st =
     (let fwMisses = filter (\<lambda>sc. h_fairway_hit sc = Some False \<and>
                                   h_fairway_miss_dir sc \<noteq> None \<and> h_fairway_miss_dir sc \<noteq> Some [])
                            (filteredScores rng st)
      in if length fwMisses \<noteq> 0
         then round_pct (length (filter (\<lambda>sc. h_fairway_miss_dir sc = Some ''L'') fwMisses)) (length fwMisses)
         else Num 0)"

definition missRPct :: "RangeOption \<Rightarrow> stats_state \<Rightarrow> int js_number" where
  "missRPct rng st =
     (let fwMisses = filter (\<lambda>sc. h_fairway_hit sc = Some False \<and>
                                   h_fairway_miss_dir sc \<noteq> None \<and> h_fairway_miss_dir sc \<noteq> Some [])
                            (filteredScores rng st)
      in if length fwMisses \<noteq> 0
         then round_pct (length (filter (\<lambda>sc. h_fairway_miss_dir sc = Some ''R'') fwMisses)) (length fwMisses)
         else Num 0)"

text \<open>
  The rates per round and the wedge average. The screen prints them with
  \<^verbatim>\<open>.toFixed(1)\<close>; the number that is printed is given here. \<open>wedgeInAvg\<close> is the
  Avg/Hole card, which prints \<open>0\<close> without tracked holes.
\<close>

definition onePuttsTotal :: "RangeOption \<Rightarrow> stats_state \<Rightarrow> nat" where
  "onePuttsTotal rng st =
     length (filter (\<lambda>s. h_putts s = Some 1)
               (filter (\<lambda>s. h_putts s \<noteq> None) (filteredScores rng st)))"

definition threePuttsTotal :: "RangeOption \<Rightarrow> stats_state \<Rightarrow> nat" where
  "threePuttsTotal rng st =
     length (filter (\<lambda>s. 3 \<le> or0 (h_putts s))
               (filter (\<lambda>s. h_putts s \<noteq> None) (filteredScores rng st)))"

definition roundCount :: "RangeOption \<Rightarrow> stats_state \<Rightarrow> nat" where
  "roundCount rng st =
     (if length (filteredRounds rng st) \<noteq> 0 then length (filteredRounds rng st) else 1)"

definition onePuttsPer18 :: "RangeOption \<Rightarrow> stats_state \<Rightarrow> rat js_number" where
  "onePuttsPer18 rng st =
     js_div (Num (of_nat (onePuttsTotal rng st))) (of_nat (roundCount rng st))"

definition threePuttsPer18 :: "RangeOption \<Rightarrow> stats_state \<Rightarrow> rat js_number" where
  "threePuttsPer18 rng st =
     js_div (Num (of_nat (threePuttsTotal rng st))) (of_nat (roundCount rng st))"

definition wedgeInTotal :: "RangeOption \<Rightarrow> stats_state \<Rightarrow> nat" where
  "wedgeInTotal rng st =
     length (filter (\<lambda>sc. h_wedge_and_in sc \<noteq> None) (filteredScores rng st))"

definition wedgeInMade :: "RangeOption \<Rightarrow> stats_state \<Rightarrow> int" where
  "wedgeInMade rng st =
     foldl (\<lambda>s sc. s + or0 (h_wedge_and_in sc)) 0
       (filter (\<lambda>sc. h_wedge_and_in sc \<noteq> None) (filteredScores rng st))"

definition wedgeInAvg :: "RangeOption \<Rightarrow> stats_state \<Rightarrow> rat js_number" where
  "wedgeInAvg rng st =
     (if wedgeInTotal rng st > 0
      then js_div (Num (of_int (wedgeInMade rng st))) (of_nat (wedgeInTotal rng st))
      else Num 0)"

text \<open>
  The bars of the scoring trend: the last ten rounds of the window, each with its date
  (the label prints its month and day) and its total.
\<close>

definition scoreData :: "RangeOption \<Rightarrow> stats_state \<Rightarrow> (date \<times> int) list" where
  "scoreData rng st =
     map (\<lambda>r. (r_date_played r, or0 (r_total_score r)))
         (js_slice (- 10) (filteredRounds rng st))"

section \<open>Logging a round (component \<open>LogRound\<close>)\<close>

typedecl StrategyData
typedecl MentalData

text \<open>A shot of the advanced mode, with the fields \<^verbatim>\<open>defaultShot\<close> fills.\<close>

record ShotData =
  shot_number :: int
  shot_club :: string
  shot_shape :: string
  intention :: string
  result_lie :: string
  miss_direction :: string

definition defaultShot :: "int \<Rightarrow> ShotData" where
  "defaultShot n =
     \<lparr> shot_number = n, shot_club = [], shot_shape = [], intention = [],
       result_lie = [], miss_direction = [] \<rparr>"

record HoleEntry =
  score :: int
  putts :: int
  fairway_hit :: "bool option"
  fairway_miss_dir :: "string option"
  gir :: bool
  penalties :: int
  wedge_and_in :: "int option"
  tee_set_id :: "string option"
  custom_yardage :: "int option"
  shots :: "ShotData list"
  strategy :: "StrategyData option"
  mental :: "MentalData option"

datatype TrackingMode = basic | advanced | strategy_mode | mental_mode

text \<open>\<^verbatim>\<open>updateHoleEntry(idx, field, value)\<close>: a field of the entry together with its new
  value. These are the fields the hole form passes.\<close>

datatype field_value =
  F_score int
| F_putts int
| F_fairway_hit "bool option"
| F_fairway_miss_dir "string option"
| F_gir bool
| F_penalties int
| F_wedge_and_in "int option"
| F_tee_set_id "string option"
| F_custom_yardage "int option"

datatype js_error = TypeError | RangeError

fun set_field :: "field_value \<Rightarrow> HoleEntry \<Rightarrow> HoleEntry" where
  "set_field (F_score v) e = e\<lparr>score := v\<rparr>"
| "set_field (F_putts v) e = e\<lparr>putts := v\<rparr>"
| "set_field (F_fairway_hit v) e = e\<lparr>fairway_hit := v\<rparr>"
| "set_field (F_fairway_miss_dir v) e = e\<lparr>fairway_miss_dir := v\<rparr>"
| "set_field (F_gir v) e = e\<lparr>gir := v\<rparr>"
| "set_field (F_penalties v) e = e\<lparr>penalties := v\<rparr>"
| "set_field (F_wedge_and_in v) e = e\<lparr>wedge_and_in := v\<rparr>"
| "set_field (F_tee_set_id v) e = e\<lparr>tee_set_id := v\<rparr>"
| "set_field (F_custom_yardage v) e = e\<lparr>custom_yardage := v\<rparr>"

text \<open>
  The shots of an entry follow its score in the advanced mode: default shots are pushed
  up to the new score, or the array is cut with \<^verbatim>\<open>currentShots.length = newScore\<close>,
  which throws a \<open>RangeError\<close> for a negative length.
\<close>

definition sync_shots :: "int \<Rightarrow> ShotData list \<Rightarrow> js_error + ShotData list" where
  "sync_shots newScore currentShots =
     (if newScore > int (length currentShots)
      then Inr (currentShots @ map (\<lambda>s. defaultShot (int s + 1))
                                   [length currentShots ..< nat newScore])
      else if newScore < int (length currentShots)
      then (if newScore < 0 then Inl RangeError else Inr (take (nat newScore) currentShots))
      else Inr currentShots)"

definition update_entry :: "TrackingMode \<Rightarrow> field_value \<Rightarrow> HoleEntry \<Rightarrow> js_error + HoleEntry" where
  "update_entry trackingMode fv e =
     (let updated = set_field fv e;
          updated = (case fv of
                       F_fairway_hit v \<Rightarrow>
                         if v \<noteq> Some False then updated\<lparr>fairway_miss_dir := None\<rparr> else updated
                     | _ \<Rightarrow> updated)
      in case fv of
           F_score newScore \<Rightarrow>
             if trackingMode = advanced
             then (case sync_shots newScore (shots e) of
                     Inl err \<Rightarrow> Inl err
                   | Inr currentShots \<Rightarrow> Inr (updated\<lparr>shots := currentShots\<rparr>))
             else Inr updated
         | _ \<Rightarrow> Inr updated)"

text \<open>\<^verbatim>\<open>prev.map((e, i) => i !== idx ? e : ...)\<close>: an \<open>idx\<close> outside the array changes
  nothing.\<close>

definition updateHoleEntry ::
  "TrackingMode \<Rightarrow> int \<Rightarrow> field_value \<Rightarrow> HoleEntry list \<Rightarrow> js_error + HoleEntry list" where
  "updateHoleEntry trackingMode idx fv prev =
     (case js_index prev idx of
        None \<Rightarrow> Inr prev
      | Some e \<Rightarrow> (case update_entry trackingMode fv e of
                     Inl err \<Rightarrow> Inl err
                   | Inr updated \<Rightarrow> Inr (prev[nat idx := updated])))"

datatype HoleSelection = all_holes | front9 | back9 | custom

record Hole =
  hole_id :: uuid
  hole_par :: "int option"

record TeeHole =
  th_hole_number :: int
  th_par :: "int option"

text \<open>The state of the form that \<^verbatim>\<open>saveRound\<close> reads.\<close>

record log_state =
  holes :: "Hole list"
  teeHolesData :: "TeeHole list"
  allTeeHolesData :: "TeeHole list"
  holeEntries :: "HoleEntry list"
  holeSelection :: HoleSelection
  selectedHoles :: "int list"
  trackingMode :: TrackingMode
  trackWedgeAndIn :: bool
  datePlayed :: date
  weather :: string
  visibility :: string

text \<open>
  The component computes \<open>activeHoleNumbers\<close>, \<open>activeIndices\<close> and the totals each time
  it renders. \<^verbatim>\<open>selectedHoles.sort((a, b) => a - b)\<close> sorts the state array in place and
  returns it, so a render with the custom selection leaves \<open>selectedHoles\<close> sorted:
  \<open>activeHoleNumbers\<close> gives the numbers together with the state the render leaves.
\<close>

definition activeHoleNumbers :: "log_state \<Rightarrow> int list \<times> log_state" where
  "activeHoleNumbers st =
     (case holeSelection st of
        all_holes \<Rightarrow> (map (\<lambda>i. int i + 1)
                        [0 ..< (if length (holes st) \<noteq> 0 then length (holes st) else 18)], st)
      | front9 \<Rightarrow> (map (\<lambda>i. int i + 1) [0 ..< 9], st)
      | back9 \<Rightarrow> (map (\<lambda>i. int i + 10) [0 ..< 9], st)
      | custom \<Rightarrow> (sort (selectedHoles st), st\<lparr>selectedHoles := sort (selectedHoles st)\<rparr>))"

definition activeIndices :: "log_state \<Rightarrow> int list" where
  "activeIndices st = map (\<lambda>n. n - 1) (fst (activeHoleNumbers st))"

definition totalScore :: "log_state \<Rightarrow> int" where
  "totalScore st =
     foldl (\<lambda>s i. s + (case js_index (holeEntries st) i of Some e \<Rightarrow> score e | None \<Rightarrow> 0))
           0 (activeIndices st)"

definition totalPutts :: "log_state \<Rightarrow> int" where
  "totalPutts st =
     foldl (\<lambda>s i. s + (case js_index (holeEntries st) i of Some e \<Rightarrow> putts e | None \<Rightarrow> 0))
           0 (activeIndices st)"

text \<open>One render: the totals it shows and the state it leaves.\<close>

definition render_totals :: "log_state \<Rightarrow> (int \<times> int) \<times> log_state" where
  "render_totals st = ((totalScore st, totalPutts st), snd (activeHoleNumbers st))"

datatype hole_notes =
  AdvancedNotes "ShotData list" | StrategyNotes StrategyData | MentalNotes MentalData

record score_insert =
  i_round_id :: uuid
  i_hole_id :: "uuid option"
  i_hole_number :: int
  i_par :: "int option"
  i_score :: int
  i_putts :: int
  i_fairway_hit :: "bool option"
  i_fairway_miss_dir :: "string option"
  i_gir :: bool
  i_penalties :: int
  i_wedge_and_in :: "int option"
  i_notes :: "hole_notes option"

text \<open>\<^verbatim>\<open>a || b\<close> on possibly absent integers, and \<^verbatim>\<open>arr.find(p)?.par\<close>.\<close>

definition or_else :: "int option \<Rightarrow> int option \<Rightarrow> int option" where
  "or_else a b = (if falsy a then b else a)"

definition tee_par :: "TeeHole list \<Rightarrow> int \<Rightarrow> int option" where
  "tee_par ths n = (case find (\<lambda>th. th_hole_number th = n) ths of
                      Some th \<Rightarrow> th_par th | None \<Rightarrow> None)"

text \<open>One element of \<^verbatim>\<open>scoreInserts\<close>; \<open>e.score\<close> on a missing entry is a \<open>TypeError\<close>.\<close>

definition scoreInsert :: "log_state \<Rightarrow> uuid \<Rightarrow> int \<Rightarrow> js_error + score_insert" where
  "scoreInsert st roundId i =
     (case js_index (holeEntries st) i of
        None \<Rightarrow> Inl TypeError
      | Some e \<Rightarrow>
          Inr \<lparr> i_round_id = roundId,
                i_hole_id = map_option hole_id (js_index (holes st) i),
                i_hole_number = i + 1,
                i_par = (let p = or_else (case js_index (holes st) i of
                                            Some h \<Rightarrow> hole_par h | None \<Rightarrow> None)
                                   (or_else (tee_par (teeHolesData st) (i + 1))
                                            (tee_par (allTeeHolesData st) (i + 1)))
                         in if falsy p then None else p),
                i_score = score e,
                i_putts = putts e,
                i_fairway_hit = fairway_hit e,
                i_fairway_miss_dir =
                  (if fairway_hit e = Some False then fairway_miss_dir e else None),
                i_gir = gir e,
                i_penalties = penalties e,
                i_wedge_and_in = (if trackWedgeAndIn st then wedge_and_in e else None),
                i_notes =
                  (if trackingMode st = advanced \<and> length (shots e) > 0
                   then Some (AdvancedNotes (shots e))
                   else if trackingMode st = strategy_mode \<and> strategy e \<noteq> None
                   then map_option StrategyNotes (strategy e)
                   else if trackingMode st = mental_mode \<and> mental e \<noteq> None
                   then map_option MentalNotes (mental e)
                   else None) \<rparr>)"

fun scoreInserts :: "log_state \<Rightarrow> uuid \<Rightarrow> int list \<Rightarrow> js_error + score_insert list" where
  "scoreInserts st roundId [] = Inr []"
| "scoreInserts st roundId (i # rest) =
     (case scoreInsert st roundId i of
        Inl err \<Rightarrow> Inl err
      | Inr row \<Rightarrow> (case scoreInserts st roundId rest of
                      Inl err \<Rightarrow> Inl err
                    | Inr rows \<Rightarrow> Inr (row # rows)))"

text \<open>
  \<^verbatim>\<open>saveRound\<close> for the signed-in user \<open>uid\<close> on the selected course: the round is
  inserted first and gets the identifier \<open>roundId\<close> from the database; the hole rows are
  built and inserted after it. An exception while they are built is caught and reported,
  and leaves the round without hole rows.
\<close>

record saved_round =
  the_round :: round_row
  the_scores :: "js_error + score_insert list"

definition saveRound :: "uuid \<Rightarrow> uuid \<Rightarrow> uuid \<Rightarrow> log_state \<Rightarrow> saved_round" where
  "saveRound uid courseId roundId st =
     \<lparr> the_round =
         \<lparr> r_id = roundId, r_user_id = uid, r_course_id = Some courseId,
           r_date_played = datePlayed st, r_total_score = Some (totalScore st),
           r_weather = Some (weather st), r_is_complete = Some True,
           r_visibility = Some (visibility st) \<rparr>,
       the_scores = scoreInserts st roundId (activeIndices st) \<rparr>"

section \<open>Example data\<close>

text \<open>Rows and tables for the concrete cases of the claims.\<close>

definition mk_round :: "uuid \<Rightarrow> uuid \<Rightarrow> date \<Rightarrow> string \<Rightarrow> round_row" where
  "mk_round rid uid d vis =
     \<lparr> r_id = rid, r_user_id = uid, r_course_id = None, r_date_played = d,
       r_total_score = None, r_weather = None, r_is_complete = Some True,
       r_visibility = Some vis \<rparr>"

definition mk_hole :: "uuid \<Rightarrow> uuid \<Rightarrow> int \<Rightarrow> bool option \<Rightarrow> int option \<Rightarrow> hole_row" where
  "mk_hole hid rid n fw p =
     \<lparr> h_id = hid, h_round_id = rid, h_hole_number = n, h_par = Some 4, h_score = Some 4,
       h_putts = p, h_fairway_hit = fw, h_fairway_miss_dir = None, h_gir = None,
       h_penalties = Some 0, h_wedge_and_in = None \<rparr>"

definition mk_shot :: "string \<Rightarrow> int \<Rightarrow> shot_row" where
  "mk_shot c d = \<lparr> s_hole_score_id = None, s_club = Some c, s_distance_yards = Some d \<rparr>"

definition mk_db :: "relationship_row list \<Rightarrow> round_row list \<Rightarrow> hole_row list \<Rightarrow> shot_row list \<Rightarrow> database" where
  "mk_db rels rnds hls shts =
     \<lparr> sb_users = [], sb_relationships = rels, sb_courses = [], sb_rounds = rnds,
       sb_hole_scores = hls, sb_shots = shts \<rparr>"

text \<open>Identifiers \<open>x\<close>, \<open>xx\<close>, \<open>xxx\<close>, ... for generated rows.\<close>

definition gen_id :: "char \<Rightarrow> nat \<Rightarrow> uuid" where
  "gen_id c n = replicate n c"

text \<open>One round of user \<open>u1\<close> with 18 holes, two putts on each, no fairway recorded.\<close>

definition db_18_holes :: database where
  "db_18_holes =
     mk_db [] [mk_round ''r1'' ''u1'' 100 ''private'']
       (map (\<lambda>n. mk_hole (gen_id CHR ''h'' n) ''r1'' (int n) None (Some 2)) [1 ..< 19]) []"

text \<open>The three holes of the fairway example: hit, not tracked, missed.\<close>

definition holes_fw_example :: "hole_row list" where
  "holes_fw_example =
     [mk_hole ''h1'' ''r1'' 1 (Some True) None,
      mk_hole ''h2'' ''r1'' 2 None None,
      mk_hole ''h3'' ''r1'' 3 (Some False) None]"

text \<open>Three rounds of user \<open>u1\<close> with 40 fairway holes in all, 23 of them hit.\<close>

definition db_23_of_40 :: database where
  "db_23_of_40 =
     mk_db []
       [mk_round ''ra'' ''u1'' 100 ''private'', mk_round ''rb'' ''u1'' 101 ''private'',
        mk_round ''rc'' ''u1'' 102 ''private'']
       (map (\<lambda>n. mk_hole (gen_id CHR ''h'' n)
                    (if n \<le> 14 then ''ra'' else if n \<le> 28 then ''rb'' else ''rc'')
                    (int ((n - 1) mod 14) + 1)
                    (Some (n \<le> 23)) None)
            [1 ..< 41]) []"

text \<open>Twelve rounds of user \<open>u1\<close>, stored out of order; round \<open>rNN\<close> was played on day \<open>NN\<close>.\<close>

definition db_12_rounds :: database where
  "db_12_rounds =
     mk_db []
       (map (\<lambda>(rid, d). mk_round rid ''u1'' d ''private'')
          [(''r07'', 7), (''r02'', 2), (''r11'', 11), (''r01'', 1), (''r05'', 5), (''r12'', 12),
           (''r03'', 3), (''r09'', 9), (''r04'', 4), (''r10'', 10), (''r06'', 6), (''r08'', 8)])
       [mk_hole ''h1'' ''r03'' 1 None (Some 2), mk_hole ''h2'' ''r08'' 1 None (Some 1),
        mk_hole ''h3'' ''r12'' 1 None (Some 3), mk_hole ''h4'' ''r07'' 1 None (Some 2)]
       []"

text \<open>The shots of the club example, and a pool with a negative distance.\<close>

definition db_clubs :: database where
  "db_clubs =
     mk_db [] [mk_round ''r1'' ''u1'' 100 ''private''] []
       [mk_shot ''7i'' 150, mk_shot ''7i'' 160, mk_shot ''Driver'' 0, mk_shot ''7I'' 140]"

definition db_negative_distance :: database where
  "db_negative_distance =
     mk_db [] [mk_round ''r1'' ''u1'' 100 ''private''] [] [mk_shot ''7i'' (- 5)]"

text \<open>
  User \<open>A\<close> follows user \<open>B\<close> (accepted); \<open>B\<close> does not follow \<open>A\<close>. \<open>A\<close> has one round,
  visible to partners. In \<open>db_B_follows_A\<close> the relationship points the other way.
\<close>

definition round_of_A :: round_row where
  "round_of_A = mk_round ''r1'' ''A'' 100 ''partners''"

definition db_A_follows_B :: database where
  "db_A_follows_B =
     mk_db [\<lparr> rel_user_id = ''A'', rel_target_id = ''B'', rel_type = ''follow'',
              rel_status = Some ''accepted'' \<rparr>]
       [round_of_A] [] []"

definition db_B_follows_A :: database where
  "db_B_follows_A =
     mk_db [\<lparr> rel_user_id = ''B'', rel_target_id = ''A'', rel_type = ''follow'',
              rel_status = Some ''accepted'' \<rparr>]
       [round_of_A] [] []"

text \<open>User \<open>B\<close> follows \<open>A\<close>; \<open>A\<close> has one completed round with the given visibility.\<close>

definition db_followed :: "string \<Rightarrow> database" where
  "db_followed vis =
     mk_db [\<lparr> rel_user_id = ''B'', rel_target_id = ''A'', rel_type = ''follow'',
              rel_status = Some ''accepted'' \<rparr>]
       [mk_round ''r1'' ''A'' 100 vis] [] []"

text \<open>User \<open>B\<close> follows \<open>A\<close>; \<open>A\<close> has 51 completed rounds, played on the days 1 to 51.\<close>

definition db_51_rounds :: database where
  "db_51_rounds =
     mk_db [\<lparr> rel_user_id = ''B'', rel_target_id = ''A'', rel_type = ''follow'',
              rel_status = Some ''accepted'' \<rparr>]
       (map (\<lambda>n. mk_round (gen_id CHR ''r'' n) ''A'' (int n) ''private'') [1 ..< 52]) [] []"

text \<open>Two rounds of user \<open>u1\<close>, the first with three holes of score 4, for an edit session.\<close>

definition db_edit :: database where
  "db_edit =
     mk_db [] [(mk_round ''r1'' ''u1'' 100 ''private'')\<lparr>r_total_score := Some 12\<rparr>,
               (mk_round ''r2'' ''u1'' 101 ''private'')\<lparr>r_total_score := Some 5\<rparr>]
       [mk_hole ''h2'' ''r1'' 2 None (Some 2), mk_hole ''g1'' ''r2'' 1 None (Some 2),
        mk_hole ''h1'' ''r1'' 1 None (Some 2), mk_hole ''h3'' ''r1'' 3 None (Some 2)] []"

text \<open>The form of a three-hole round: a hit fairway, a miss to the left, and an entry
  that kept a miss direction although its fairway is not recorded as missed.\<close>

definition entry0 :: HoleEntry where
  "entry0 =
     \<lparr> score = 0, putts = 0, fairway_hit = None, fairway_miss_dir = None, gir = False,
       penalties = 0, wedge_and_in = None, tee_set_id = None, custom_yardage = None,
       shots = [], strategy = None, mental = None \<rparr>"

definition log_example :: log_state where
  "log_example =
     \<lparr> holes = [], teeHolesData = [], allTeeHolesData = [],
       holeEntries =
         [entry0\<lparr>score := 4, fairway_hit := Some True\<rparr>,
          entry0\<lparr>score := 5, fairway_hit := Some False, fairway_miss_dir := Some ''L''\<rparr>,
          entry0\<lparr>score := 3, fairway_hit := None, fairway_miss_dir := Some ''R''\<rparr>],
       holeSelection = custom, selectedHoles = [3, 1, 2], trackingMode = basic,
       trackWedgeAndIn = False, datePlayed = 100, weather = ''Sunny'',
       visibility = ''private'' \<rparr>"

section \<open>Notions for stating the claims\<close>

text \<open>
  The distances the club aggregation keeps for the club string \<open>c\<close>, in the order of the
  shots: those of the shots with exactly this club and a distance that is neither null
  nor zero.
\<close>

definition club_distances :: "shot_row list \<Rightarrow> string \<Rightarrow> int list" where
  "club_distances shts c =
     map (\<lambda>s. or0 (s_distance_yards s))
         (filter (\<lambda>s. s_club s = Some c \<and> \<not> falsy (s_distance_yards s)) shts)"

text \<open>
  The percentage of the elements of \<open>xs\<close> with the property \<open>P\<close> as the statistics screen
  shows it: \<open>0\<close> for no element.
\<close>

definition pct_of :: "('a \<Rightarrow> bool) \<Rightarrow> 'a list \<Rightarrow> int js_number" where
  "pct_of P xs = (if xs = [] then Num 0 else round_pct (length (filter P xs)) (length xs))"

text \<open>A shot the club aggregation keeps, and its club as a string.\<close>

definition kept_shot :: "shot_row \<Rightarrow> bool" where
  "kept_shot s \<longleftrightarrow> s_club s \<noteq> None \<and> s_club s \<noteq> Some [] \<and> \<not> falsy (s_distance_yards s)"

definition club_name :: "shot_row \<Rightarrow> string" where
  "club_name s = (case s_club s of Some c \<Rightarrow> c | None \<Rightarrow> [])"

text \<open>
  The row of \<open>sb_hole_scores\<close> after the edited hole \<open>hole\<close> has been written over it, and
  the table row after a list of edited holes has been written (for stating C8). A hole
  is accepted when its score and putts fit their columns.
\<close>

definition accepted :: "hole_row \<Rightarrow> bool" where
  "accepted hole \<longleftrightarrow> int4_or_null (h_score hole) \<and> int4_or_null (h_putts hole)"


definition written_row :: "hole_row \<Rightarrow> hole_row \<Rightarrow> hole_row" where
  "written_row hole h =
     h\<lparr>h_score := h_score hole, h_putts := h_putts hole,
       h_fairway_hit := h_fairway_hit hole, h_gir := h_gir hole\<rparr>"

definition row_after :: "hole_row list \<Rightarrow> hole_row \<Rightarrow> hole_row" where
  "row_after es h =
     (case find (\<lambda>e. h_id e = h_id h) es of
        Some e \<Rightarrow> written_row e h
      | None \<Rightarrow> h)"

section \<open>Rounding to binary64\<close>

lemma ilog2_nonneg: "0 \<le> ilog2 n"
  by (induction n rule: ilog2.induct) (subst ilog2.simps, simp)

lemma ilog2_bounds:
  "1 \<le> n \<Longrightarrow> 2 ^ nat (ilog2 n) \<le> n \<and> n < 2 ^ (nat (ilog2 n) + 1)"
proof (induction n rule: ilog2.induct)
  case (1 n)
  show ?case
  proof (cases "n < 2")
    case True
    with "1.prems" have "n = 1" by simp
    then show ?thesis by (simp add: ilog2.simps)
  next
    case False
    then have h: "1 \<le> n div 2" by simp
    have e: "ilog2 n = 1 + ilog2 (n div 2)"
      using False by (subst ilog2.simps) simp
    have ih: "2 ^ nat (ilog2 (n div 2)) \<le> n div 2 \<and> n div 2 < 2 ^ (nat (ilog2 (n div 2)) + 1)"
      using "1.IH" [OF False h] .
    have n: "nat (1 + ilog2 (n div 2)) = Suc (nat (ilog2 (n div 2)))"
      using ilog2_nonneg [of "n div 2"] by simp
    show ?thesis
      unfolding e n using ih by auto
  qed
qed

lemma pow2_pos: "0 < pow2 e"
  by (simp add: pow2_def)

lemma pow2_nat: "pow2 (int k) = 2 ^ k"
  by (simp add: pow2_def)

lemma pow2_eq_power_int: "pow2 e = 2 powi e"
  by (simp add: pow2_def power_int_def field_simps)

lemma pow2_add: "pow2 (a + b) = pow2 a * pow2 b"
  by (simp add: pow2_eq_power_int power_int_add)

lemma pow2_mono: "a \<le> b \<Longrightarrow> pow2 a \<le> pow2 b"
  by (simp add: pow2_eq_power_int power_int_increasing)

lemma pow2_strict_mono: "a < b \<Longrightarrow> pow2 a < pow2 b"
  by (simp add: pow2_eq_power_int power_int_strict_increasing)

lemma pow2_less_iff: "pow2 a < pow2 b \<longleftrightarrow> a < b"
  using pow2_mono [of b a] pow2_strict_mono [of a b] by (auto simp: not_le [symmetric])

lemma pow2_minus: "pow2 (- a) = 1 / pow2 a"
  by (simp add: pow2_eq_power_int power_int_minus field_simps)

lemma binade_bounds:
  assumes "0 < x"
  shows "pow2 (binade x) \<le> x \<and> x < pow2 (binade x + 1)"
proof -
  obtain p q where pq: "quotient_of x = (p, q)" by (cases "quotient_of x")
  have q: "0 < q" using quotient_of_denom_pos [OF pq] .
  have x: "x = of_int p / of_int q" using quotient_of_div [OF pq] .
  have p: "0 < p" using assms q unfolding x by (simp add: zero_less_divide_iff)
  define a where "a = ilog2 p"
  define b where "b = ilog2 q"
  have a0: "0 \<le> a" and b0: "0 \<le> b" by (simp_all add: a_def b_def ilog2_nonneg)
  have pb: "2 ^ nat a \<le> p \<and> p < 2 ^ (nat a + 1)"
    using ilog2_bounds [of p] p unfolding a_def by simp
  have qb: "2 ^ nat b \<le> q \<and> q < 2 ^ (nat b + 1)"
    using ilog2_bounds [of q] q unfolding b_def by simp
  have pa: "pow2 a \<le> of_int p" "of_int p < pow2 (a + 1)"
  proof -
    have "(of_int (2 ^ nat a) :: rat) \<le> of_int p" using pb by (simp only: of_int_le_iff)
    then show "pow2 a \<le> of_int p" using a0 by (simp add: pow2_def)
    have "(of_int p :: rat) < of_int (2 ^ (nat a + 1))" using pb by (simp only: of_int_less_iff)
    then show "of_int p < pow2 (a + 1)" using a0 by (simp add: pow2_def nat_add_distrib)
  qed
  have qa: "pow2 b \<le> of_int q" "of_int q < pow2 (b + 1)"
  proof -
    have "(of_int (2 ^ nat b) :: rat) \<le> of_int q" using qb by (simp only: of_int_le_iff)
    then show "pow2 b \<le> of_int q" using b0 by (simp add: pow2_def)
    have "(of_int q :: rat) < of_int (2 ^ (nat b + 1))" using qb by (simp only: of_int_less_iff)
    then show "of_int q < pow2 (b + 1)" using b0 by (simp add: pow2_def nat_add_distrib)
  qed
  have qr: "(0::rat) < of_int q" using q by simp
  have bd: "binade x = (if pow2 (a - b) \<le> x then a - b else a - b - 1)"
    by (simp add: binade_def pq a_def b_def)
  have up: "x < pow2 (a - b + 1)"
  proof -
    have "x < pow2 (a + 1) / of_int q"
      unfolding x using pa(2) qr by (simp add: divide_strict_right_mono)
    also have "\<dots> \<le> pow2 (a + 1) / pow2 b"
      using qa(1) pow2_pos [of b] pow2_pos [of "a + 1"] by (simp add: frac_le)
    also have "\<dots> = pow2 (a + 1 + - b)"
      by (simp only: pow2_add pow2_minus) simp
    also have "a + 1 + - b = a - b + 1" by simp
    finally show ?thesis .
  qed
  have lo: "pow2 (a - b - 1) \<le> x"
  proof -
    have "a - b - 1 = a + - (b + 1)" by simp
    then have "pow2 (a - b - 1) = pow2 (a + - (b + 1))" by (rule arg_cong)
    also have "\<dots> = pow2 a / pow2 (b + 1)"
      by (simp only: pow2_add pow2_minus) simp
    also have "\<dots> \<le> pow2 a / of_int q"
      using qa(2) qr pow2_pos [of a] by (simp add: frac_le)
    also have "\<dots> \<le> x"
      unfolding x using pa(1) qr by (simp add: divide_right_mono)
    finally show ?thesis .
  qed
  show ?thesis
    using up lo unfolding bd by auto
qed

lemma round_half_even_error: "\<bar>of_int (round_half_even x) - x\<bar> \<le> 1 / 2"
proof -
  define f where "f = \<lfloor>x\<rfloor>"
  have b: "of_int f \<le> x" "x < of_int f + 1" unfolding f_def by linarith+
  consider "x - of_int f < 1 / 2" | "1 / 2 < x - of_int f" | "x - of_int f = 1 / 2"
    by linarith
  then show ?thesis
  proof cases
    case 1
    then have "round_half_even x = f" by (simp add: round_half_even_def Let_def f_def)
    then show ?thesis using b 1 by (simp add: abs_le_iff)
  next
    case 2
    then have "round_half_even x = f + 1" by (simp add: round_half_even_def Let_def f_def)
    then show ?thesis using b 2 by (simp add: abs_le_iff)
  next
    case 3
    then have "round_half_even x = f \<or> round_half_even x = f + 1"
      by (simp add: round_half_even_def Let_def f_def)
    then show ?thesis using b 3 by (auto simp: abs_le_iff)
  qed
qed

lemma round_half_even_of_int: "round_half_even (of_int n) = n"
  by (simp add: round_half_even_def)

text \<open>The rounding error is at most half a unit in the last place.\<close>

lemma fl_error: "\<bar>fl x - x\<bar> \<le> \<bar>x\<bar> / 2 ^ 53"
proof (cases "x = 0")
  case True
  then show ?thesis by (simp add: fl_def)
next
  case False
  define a where "a = \<bar>x\<bar>"
  define s where "s = pow2 (52 - binade a)"
  define m where "m = round_half_even (a * s)"
  have a: "0 < a" using False by (simp add: a_def)
  have s: "0 < s" by (simp add: s_def pow2_pos)
  have f: "fl x = sgn x * of_int m / s"
    using False by (simp add: fl_def Let_def a_def s_def m_def)
  have xs: "x = sgn x * a" by (simp add: a_def sgn_if)
  have "fl x - x = sgn x * ((of_int m - a * s) / s)"
    using s by (subst (2) xs) (simp add: f field_simps)
  then have "\<bar>fl x - x\<bar> = \<bar>of_int m - a * s\<bar> / s"
    using False s by (simp add: abs_mult abs_sgn_eq)
  also have "\<dots> \<le> (1 / 2) / s"
    using divide_right_mono [OF round_half_even_error [of "a * s"], of s] s
    unfolding m_def by simp
  also have "\<dots> \<le> a / 2 ^ 53"
  proof -
    have "pow2 52 = pow2 (binade a) * s"
      unfolding s_def using pow2_add [of "binade a" "52 - binade a"] by simp
    also have "\<dots> \<le> a * s"
      using binade_bounds [OF a] s by simp
    finally have "2 ^ 52 \<le> a * s" using pow2_nat [of 52] by simp
    then show ?thesis using s by (simp add: field_simps)
  qed
  finally show ?thesis by (simp add: a_def)
qed

text \<open>Halves of integers below \<open>2 ^ 53\<close> are binary64 values.\<close>

lemma fl_half_int:
  assumes "\<bar>m\<bar> < 2 ^ 53"
  shows "fl (of_int m / 2) = of_int m / 2"
proof (cases "m = 0")
  case True
  then show ?thesis by (simp add: fl_def)
next
  case False
  define x :: rat where "x = of_int m / 2"
  define a where "a = \<bar>x\<bar>"
  define e where "e = binade a"
  have x0: "x \<noteq> 0" using False by (simp add: x_def)
  have a: "0 < a" using x0 by (simp add: a_def)
  have am: "a = of_int \<bar>m\<bar> / 2" by (simp add: a_def x_def)
  have "of_int \<bar>m\<bar> < (2 ^ 53 :: rat)"
    using assms by (metis of_int_less_iff of_int_numeral of_int_power)
  then have "a < pow2 52" using pow2_nat [of 52] by (simp add: am)
  then have "pow2 e < pow2 52" using binade_bounds [OF a] unfolding e_def by simp
  then have e: "e < 52" by (simp add: pow2_less_iff)
  define k where "k = nat (51 - e)"
  have s: "pow2 (52 - e) = 2 * 2 ^ k"
    using e by (simp add: pow2_def k_def flip: power_Suc) (simp add: Suc_nat_eq_nat_zadd1)?
  have "a * pow2 (52 - e) = of_int (\<bar>m\<bar> * 2 ^ k)" by (simp add: am s)
  then have r: "of_int (round_half_even (a * pow2 (52 - e))) = a * pow2 (52 - e)"
    by (simp only: round_half_even_of_int)
  have "fl x = sgn x * (a * pow2 (52 - e)) / pow2 (52 - e)"
    using x0 r by (simp add: fl_def Let_def a_def e_def)
  also have "\<dots> = sgn x * a" using pow2_pos [of "52 - e"] by simp
  also have "\<dots> = x" by (simp add: a_def sgn_if)
  finally show ?thesis by (simp add: x_def)
qed

lemma fl_of_int:
  assumes "\<bar>n\<bar> < 2 ^ 52"
  shows "fl (of_int n) = of_int n"
  using fl_half_int [of "2 * n"] assms by simp

lemma floor_half_bounds:
  fixes x :: rat
  shows "of_int \<lfloor>x + 1 / 2\<rfloor> - 1 / 2 \<le> x \<and> x < of_int \<lfloor>x + 1 / 2\<rfloor> + 1 / 2"
  by linarith

lemma Math_round_near:
  assumes "of_int k - 1 / 2 \<le> y" "y < of_int k + 1 / 2"
  shows "Math_round (Num y) = Num k"
proof -
  have "\<lfloor>y + 1 / 2\<rfloor> = k" using assms by linarith
  then show ?thesis by simp
qed

text \<open>One rounded division followed by \<open>Math.round\<close> rounds the exact quotient.\<close>

lemma Math_round_js_div:
  assumes S: "\<bar>S\<bar> < 2 ^ 52" and n: "0 < n"
  shows "Math_round (js_div (Num (of_int S)) (of_nat n)) =
         Num \<lfloor>of_int S / of_nat n + 1 / (2::rat)\<rfloor>"
proof -
  define N :: rat where "N = of_nat n"
  define x :: rat where "x = of_int S / N"
  define k where "k = \<lfloor>x + 1 / 2\<rfloor>"
  have N: "1 \<le> N" using n by (simp add: N_def)
  have kb: "of_int k - 1 / 2 \<le> x" "x < of_int k + 1 / 2"
    using floor_half_bounds [of x] by (simp_all add: k_def)
  have Sr: "\<bar>of_int S :: rat\<bar> \<le> 2 ^ 52 - 1"
  proof -
    have "\<bar>S\<bar> \<le> 2 ^ 52 - 1" using S by simp
    then have "(of_int \<bar>S\<bar> :: rat) \<le> of_int (2 ^ 52 - 1)" by (simp only: of_int_le_iff)
    then show ?thesis by simp
  qed
  have ax: "\<bar>x\<bar> = \<bar>of_int S\<bar> / N" using N by (simp add: x_def)
  have err: "\<bar>fl x - x\<bar> < 1 / (2 * N)"
  proof -
    have "\<bar>fl x - x\<bar> \<le> \<bar>x\<bar> / 2 ^ 53" by (rule fl_error)
    also have "\<dots> \<le> ((2 ^ 52 - 1) / N) / 2 ^ 53"
      unfolding ax using Sr N by (simp add: divide_right_mono)
    also have "\<dots> < 1 / (2 * N)" using N by (simp add: field_simps)
    finally show ?thesis .
  qed
  have up: "fl x < of_int k + 1 / 2"
  proof -
    have "of_int S * 2 < (of_int k * 2 + 1) * N"
      using kb(2) N by (simp add: x_def field_simps)
    then have "(of_int (S * 2) :: rat) < of_int ((k * 2 + 1) * int n)" by (simp add: N_def)
    then have "S * 2 < (k * 2 + 1) * int n" by (simp only: of_int_less_iff)
    then have "S * 2 + 1 \<le> (k * 2 + 1) * int n" by simp
    then have "(of_int (S * 2 + 1) :: rat) \<le> of_int ((k * 2 + 1) * int n)"
      by (simp only: of_int_le_iff)
    then have "of_int S * 2 + 1 \<le> (of_int k * 2 + 1) * N" by (simp add: N_def)
    then have "x + 1 / (2 * N) \<le> of_int k + 1 / 2" using N by (simp add: x_def field_simps)
    then show ?thesis using err by (simp add: abs_less_iff)
  qed
  have lo: "of_int k - 1 / 2 \<le> fl x"
  proof (cases "of_int k - 1 / 2 = x")
    case True
    then have xk: "x = of_int (2 * k - 1) / 2" by simp
    have "\<bar>x\<bar> \<le> \<bar>of_int S\<bar>"
      unfolding ax using N mult_right_mono [of 1 N "\<bar>of_int S\<bar>"] by (simp add: field_simps)
    then have "\<bar>of_int (2 * k - 1) :: rat\<bar> \<le> 2 * (2 ^ 52 - 1)" using Sr unfolding xk by simp
    then have "(of_int \<bar>2 * k - 1\<bar> :: rat) \<le> of_int (2 * (2 ^ 52 - 1))" by simp
    then have "\<bar>2 * k - 1\<bar> \<le> 2 * (2 ^ 52 - 1)" by (simp only: of_int_le_iff)
    then have "\<bar>2 * k - 1\<bar> < 2 ^ 53" by simp
    then have "fl x = x" unfolding xk by (rule fl_half_int)
    then show ?thesis using kb(1) by simp
  next
    case False
    then have "of_int k - 1 / 2 < x" using kb(1) by simp
    then have "(of_int k * 2 - 1) * N < of_int S * 2"
      using N by (simp add: x_def field_simps)
    then have "(of_int ((k * 2 - 1) * int n) :: rat) < of_int (S * 2)" by (simp add: N_def)
    then have "(k * 2 - 1) * int n < S * 2" by (simp only: of_int_less_iff)
    then have "(k * 2 - 1) * int n + 1 \<le> S * 2" by simp
    then have "(of_int ((k * 2 - 1) * int n + 1) :: rat) \<le> of_int (S * 2)"
      by (simp only: of_int_le_iff)
    then have "(of_int k * 2 - 1) * N + 1 \<le> of_int S * 2" by (simp add: N_def)
    then have "((of_int k * 2 - 1) * N + 1) / (2 * N) \<le> (of_int S * 2) / (2 * N)"
      using N by (intro divide_right_mono) simp_all
    moreover have "((of_int k * 2 - 1) * N + 1) / (2 * N) = of_int k - 1 / 2 + 1 / (2 * N)"
      using N by (simp add: field_simps)
    moreover have "(of_int S * 2) / (2 * N) = x" by (simp add: x_def)
    ultimately have "of_int k - 1 / 2 + 1 / (2 * N) \<le> x" by simp
    then show ?thesis using err by (simp add: abs_less_iff)
  qed
  have "js_div (Num (of_int S)) (of_nat n) = Num (fl x)"
    using n by (simp add: x_def N_def)
  then show ?thesis
    using Math_round_near [OF lo up] by (simp only: k_def x_def N_def)
qed

text \<open>
  A percentage takes two rounded operations before \<open>Math.round\<close>. Their error is far
  below the distance of \<open>100 * h / n\<close> from the nearest half, unless that distance is zero.
\<close>

lemma Math_round_pct:
  fixes h n :: nat
  assumes hn: "h \<le> n" and n: "0 < n" and nb: "n < 2 ^ 44"
    and nh: "frac (100 * of_nat h / of_nat n :: rat) \<noteq> 1 / 2"
  shows "Math_round (js_mul (js_div (Num (of_nat h)) (of_nat n)) 100) =
         Num \<lfloor>100 * of_nat h / of_nat n + 1 / (2::rat)\<rfloor>"
proof -
  define N :: rat where "N = of_nat n"
  define H :: rat where "H = of_nat h"
  define x where "x = H / N"
  define y where "y = 100 * H / N"
  define k where "k = \<lfloor>y + 1 / 2\<rfloor>"
  define a where "a = fl x"
  define b where "b = fl (a * 100)"
  have N: "1 \<le> N" using n by (simp add: N_def)
  have N2: "2 * N \<le> 2 ^ 45"
  proof -
    have "2 * n \<le> 2 ^ 45" using nb by simp
    then have "(of_nat (2 * n) :: rat) \<le> of_nat (2 ^ 45)" by (simp only: of_nat_le_iff)
    then show ?thesis by (simp add: N_def)
  qed
  have x01: "0 \<le> x" "x \<le> 1"
    using hn n by (simp_all add: x_def H_def N_def)
  have yx: "y = 100 * x" by (simp add: y_def x_def)
  have ea: "\<bar>a - x\<bar> \<le> 1 / 2 ^ 53"
  proof -
    have "\<bar>a - x\<bar> \<le> \<bar>x\<bar> / 2 ^ 53" unfolding a_def by (rule fl_error)
    also have "\<dots> \<le> 1 / 2 ^ 53" using x01 by (simp add: divide_right_mono)
    finally show ?thesis .
  qed
  have a1: "\<bar>a\<bar> \<le> 1 + 1 / 2 ^ 53" using ea x01 by linarith
  have eb: "\<bar>b - a * 100\<bar> \<le> 101 / 2 ^ 53"
  proof -
    have "\<bar>b - a * 100\<bar> \<le> \<bar>a * 100\<bar> / 2 ^ 53" unfolding b_def by (rule fl_error)
    also have "\<dots> = \<bar>a\<bar> * 100 / 2 ^ 53" by (simp add: abs_mult)
    also have "\<dots> \<le> (1 + 1 / 2 ^ 53) * 100 / 2 ^ 53"
      using a1 by (intro divide_right_mono mult_right_mono) simp_all
    also have "\<dots> \<le> 101 / 2 ^ 53" by simp
    finally show ?thesis .
  qed
  have "b - y = (b - a * 100) + 100 * (a - x)" by (simp add: yx algebra_simps)
  then have "\<bar>b - y\<bar> \<le> \<bar>b - a * 100\<bar> + \<bar>100 * (a - x)\<bar>"
    by (simp only: abs_triangle_ineq)
  also have "\<dots> = \<bar>b - a * 100\<bar> + 100 * \<bar>a - x\<bar>" by (simp only: abs_mult)
  also have "\<dots> \<le> 101 / 2 ^ 53 + 100 * (1 / 2 ^ 53)"
    using ea eb by (intro add_mono mult_left_mono) simp_all
  also have "\<dots> < 1 / 2 ^ 45" by simp
  also have "\<dots> \<le> 1 / (2 * N)" using N N2 by (intro divide_left_mono) simp_all
  finally have err: "\<bar>b - y\<bar> < 1 / (2 * N)" .
  have kb: "of_int k - 1 / 2 \<le> y" "y < of_int k + 1 / 2"
    using floor_half_bounds [of y] by (simp_all add: k_def)
  have ne: "y \<noteq> of_int k - 1 / 2"
  proof
    assume e: "y = of_int k - 1 / 2"
    have "\<lfloor>y\<rfloor> = k - 1" unfolding e by linarith
    then have "frac y = 1 / 2" by (simp add: frac_def e)
    then show False using nh by (simp add: y_def H_def N_def)
  qed
  have up: "b < of_int k + 1 / 2"
  proof -
    have "H * 200 < (of_int k * 2 + 1) * N"
      using kb(2) N by (simp add: y_def field_simps)
    then have "(of_int (int h * 200) :: rat) < of_int ((k * 2 + 1) * int n)"
      by (simp add: N_def H_def)
    then have "int h * 200 < (k * 2 + 1) * int n" by (simp only: of_int_less_iff)
    then have "int h * 200 + 1 \<le> (k * 2 + 1) * int n" by simp
    then have "(of_int (int h * 200 + 1) :: rat) \<le> of_int ((k * 2 + 1) * int n)"
      by (simp only: of_int_le_iff)
    then have "H * 200 + 1 \<le> (of_int k * 2 + 1) * N" by (simp add: N_def H_def)
    then have "(H * 200 + 1) / (2 * N) \<le> ((of_int k * 2 + 1) * N) / (2 * N)"
      using N by (intro divide_right_mono) simp_all
    moreover have "(H * 200 + 1) / (2 * N) = y + 1 / (2 * N)"
      using N by (simp add: y_def field_simps)
    moreover have "((of_int k * 2 + 1) * N) / (2 * N) = of_int k + 1 / 2"
      using N by (simp add: field_simps)
    ultimately have "y + 1 / (2 * N) \<le> of_int k + 1 / 2" by simp
    then show ?thesis using err by (simp add: abs_less_iff)
  qed
  have lo: "of_int k - 1 / 2 \<le> b"
  proof -
    have "of_int k - 1 / 2 < y" using kb(1) ne by simp
    then have "(of_int k * 2 - 1) * N < H * 200"
      using N by (simp add: y_def field_simps)
    then have "(of_int ((k * 2 - 1) * int n) :: rat) < of_int (int h * 200)"
      by (simp add: N_def H_def)
    then have "(k * 2 - 1) * int n < int h * 200" by (simp only: of_int_less_iff)
    then have "(k * 2 - 1) * int n + 1 \<le> int h * 200" by simp
    then have "(of_int ((k * 2 - 1) * int n + 1) :: rat) \<le> of_int (int h * 200)"
      by (simp only: of_int_le_iff)
    then have "(of_int k * 2 - 1) * N + 1 \<le> H * 200" by (simp add: N_def H_def)
    then have "((of_int k * 2 - 1) * N + 1) / (2 * N) \<le> (H * 200) / (2 * N)"
      using N by (intro divide_right_mono) simp_all
    moreover have "((of_int k * 2 - 1) * N + 1) / (2 * N) = of_int k - 1 / 2 + 1 / (2 * N)"
      using N by (simp add: field_simps)
    moreover have "(H * 200) / (2 * N) = y" by (simp add: y_def)
    ultimately have "of_int k - 1 / 2 + 1 / (2 * N) \<le> y" by simp
    then show ?thesis using err by (simp add: abs_less_iff)
  qed
  have "js_mul (js_div (Num (of_nat h)) (of_nat n)) 100 = Num b"
    using n by (simp add: b_def a_def x_def H_def N_def)
  moreover have "Math_round (Num b) = Num k" using lo up by (rule Math_round_near)
  ultimately show ?thesis
    by (simp only: k_def y_def H_def N_def)
qed

text \<open>A division by a divisor other than zero is finite, and so is all that follows it.\<close>

lemma js_div_finite: "b \<noteq> 0 \<Longrightarrow> js_div (Num a) b = Num (fl (a / b))"
  by simp

lemma round_pct_finite: "0 < n \<Longrightarrow> round_pct h n \<in> range Num"
  by (simp add: round_pct_def)

lemma round_tenth_finite: "0 < n \<Longrightarrow> round_tenth s n \<in> range Num"
  by (simp add: round_tenth_def)

lemma round_pct_zero: "round_pct h 0 \<notin> range Num"
  by (auto simp: round_pct_def)

section \<open>Grouping by key\<close>

lemma foldl_add_sum_list:
  fixes a :: int
  shows "foldl (\<lambda>s h. s + f h) a xs = a + sum_list (map f xs)"
  by (induction xs arbitrary: a) simp_all

lemma foldl_plus_sum_list:
  fixes a :: int
  shows "foldl (\<lambda>a b. a + b) a xs = a + sum_list xs"
  by (induction xs arbitrary: a) simp_all

lemma map_of_map_push:
  "map_of (map_push k v m) k' =
     (if k' = k then Some (case map_of m k of None \<Rightarrow> [v] | Some l \<Rightarrow> l @ [v])
      else map_of m k')"
  by (induction m) (auto simp: map_push_def)

lemma fst_set_map_push: "fst ` set (map_push k v m) = insert k (fst ` set m)"
  by (simp add: map_push_def dom_map_default)

lemma distinct_map_push:
  "distinct (map fst m) \<Longrightarrow> distinct (map fst (map_push k v m))"
  by (simp add: map_push_def distinct_map_default)

lemma mset_concat_map_push:
  "mset (concat (map snd (filter (\<lambda>(k', l). P k') (map_push k v m)))) =
   mset (concat (map snd (filter (\<lambda>(k', l). P k') m))) + (if P k then {#v#} else {#})"
  by (induction m) (auto simp: map_push_def)

lemma map_of_group:
  "map_of (foldl (\<lambda>m s. map_push (f s) (g s) m) m0 xs) k =
     (case map_of m0 k of
        None \<Rightarrow> (if filter (\<lambda>s. f s = k) xs = [] then None
                  else Some (map g (filter (\<lambda>s. f s = k) xs)))
      | Some l \<Rightarrow> Some (l @ map g (filter (\<lambda>s. f s = k) xs)))"
proof (induction xs arbitrary: m0)
  case Nil
  then show ?case by (simp split: option.splits)
next
  case (Cons x xs)
  show ?case
    by (simp add: Cons.IH map_of_map_push split: option.splits)
qed

lemma distinct_group:
  "distinct (map fst m0) \<Longrightarrow>
   distinct (map fst (foldl (\<lambda>m s. map_push (f s) (g s) m) m0 xs))"
  by (induction xs arbitrary: m0) (simp_all add: distinct_map_push)

lemma fst_set_group:
  "fst ` set (foldl (\<lambda>m s. map_push (f s) (g s) m) m0 xs) = fst ` set m0 \<union> f ` set xs"
  by (induction xs arbitrary: m0) (auto simp: fst_set_map_push)

lemma mset_concat_group:
  "mset (concat (map snd (filter (\<lambda>(k, l). P k)
           (foldl (\<lambda>m s. map_push (f s) (g s) m) m0 xs)))) =
   mset (concat (map snd (filter (\<lambda>(k, l). P k) m0))) +
   mset (map g (filter (\<lambda>s. P (f s)) xs))"
  by (induction xs arbitrary: m0) (simp_all add: mset_concat_map_push)

lemma map_get_scoresByRound:
  "map_get (scoresByRound scores) rid = filter (\<lambda>h. h_round_id h = rid) scores"
  unfolding map_get_def scoresByRound_def
  using map_of_group [of h_round_id "\<lambda>s. s" "[]" scores rid] by simp

lemma mset_scoresByRound:
  "mset (concat (map snd (filter (\<lambda>(k, l). P k) (scoresByRound scores)))) =
   mset (filter (\<lambda>h. P (h_round_id h)) scores)"
  unfolding scoresByRound_def
  using mset_concat_group [of P h_round_id "\<lambda>s. s" "[]" scores] by simp

text \<open>Sorting the images of a list.\<close>

lemma insort_key_map:
  "insort_key k (f x) (map f xs) = map f (insort_key (\<lambda>y. k (f y)) x xs)"
  by (induction xs) simp_all

lemma sort_key_map:
  "sort_key k (map f xs) = map f (sort_key (\<lambda>y. k (f y)) xs)"
  by (induction xs) (simp_all add: insort_key_map)

text \<open>No list of a map filled by pushing is empty.\<close>

lemma map_push_nonempty:
  "\<forall>p \<in> set m. snd p \<noteq> [] \<Longrightarrow> \<forall>p \<in> set (map_push k v m). snd p \<noteq> []"
  by (induction m) (auto simp: map_push_def)

lemma clubMap_nonempty: "\<forall>p \<in> set (clubMap shts). snd p \<noteq> []"
proof -
  have "\<forall>p \<in> set m0. snd p \<noteq> [] \<Longrightarrow>
        \<forall>p \<in> set (foldl (\<lambda>m s. case (s_club s, s_distance_yards s) of
                     (Some c, Some d) \<Rightarrow> if c = [] \<or> d = 0 then m else map_push c d m
                   | _ \<Rightarrow> m) m0 shts). snd p \<noteq> []" for m0
  proof (induction shts arbitrary: m0)
    case Nil
    then show ?case by simp
  next
    case (Cons s shts)
    have "\<forall>p \<in> set (case (s_club s, s_distance_yards s) of
                     (Some c, Some d) \<Rightarrow> if c = [] \<or> d = 0 then m0 else map_push c d m0
                   | _ \<Rightarrow> m0). snd p \<noteq> []"
      using Cons.prems map_push_nonempty [OF Cons.prems]
      by (simp split: option.splits)
    then show ?case
      unfolding foldl_Cons by (rule Cons.IH)
  qed
  from this [of "[]"] show ?thesis by (simp add: clubMap_def)
qed

lemma clubStats_finite: "avgDistance ` set (clubStats shts) \<subseteq> range Num"
proof
  fix x assume "x \<in> avgDistance ` set (clubStats shts)"
  then obtain c dists where m: "(c, dists) \<in> set (clubMap shts)"
    and x: "x = Math_round (js_div (Num (of_int (foldl (\<lambda>a b. a + b) 0 dists)))
                                  (of_nat (length dists)))"
    by (auto simp: clubStats_def)
  have "dists \<noteq> []" using clubMap_nonempty m by fastforce
  then show "x \<in> range Num" unfolding x by simp
qed

section \<open>The rows behind the statistics\<close>

lemma mset_eq_sum_list_map:
  fixes f :: "'a \<Rightarrow> int"
  assumes "mset xs = mset ys"
  shows "sum_list (map f xs) = sum_list (map f ys)"
proof -
  have "sum_mset (image_mset f (mset xs)) = sum_mset (image_mset f (mset ys))"
    using assms by simp
  then show ?thesis by (simp only: mset_map [symmetric] sum_mset_sum_list)
qed

lemma mset_eq_Nil_iff:
  assumes "mset xs = mset ys"
  shows "xs = [] \<longleftrightarrow> ys = []"
proof -
  have "xs = [] \<longleftrightarrow> mset xs = {#}" by simp
  also have "\<dots> \<longleftrightarrow> mset ys = {#}" using assms by simp
  also have "\<dots> \<longleftrightarrow> ys = []" by simp
  finally show ?thesis .
qed

lemma mset_eq_filter:
  assumes "mset xs = mset ys"
  shows "mset (filter P xs) = mset (filter P ys)"
  using assms by (simp only: mset_filter)

lemma mset_eq_length_filter:
  assumes "mset xs = mset ys"
  shows "length (filter P xs) = length (filter P ys)"
  using mset_eq_filter [OF assms, of P] by (rule mset_eq_length)

lemma js_slice_last:
  "0 < n \<Longrightarrow> js_slice (- n) xs = drop (length xs - nat n) xs"
proof -
  assume n: "0 < n"
  have "nat (max (int (length xs) + - n) 0) = length xs - nat n"
    using n by (simp add: max_def) linarith
  then show ?thesis using n by (simp add: js_slice_def Let_def)
qed

lemma filteredRounds_subset:
  "set (filteredRounds rng st) \<subseteq> set (allRounds st)"
  by (auto simp: filteredRounds_def js_slice_def Let_def dest: in_set_dropD)

lemma allRounds_loadStats:
  "allRounds (loadStats uid db) =
     order_asc r_date_played
       (filter (\<lambda>r. r_user_id r = uid \<and> r_is_complete r = Some True) (sb_rounds db))"
  by (simp add: loadStats_def Let_def)

lemma allScoresByRound_loadStats:
  "allScoresByRound (loadStats uid db) =
     (if allRounds (loadStats uid db) = [] then []
      else scoresByRound (order_asc h_hole_number
             (filter (\<lambda>h. h_round_id h \<in> r_id ` set (allRounds (loadStats uid db)))
                     (sb_hole_scores db))))"
  by (simp add: loadStats_def Let_def)

text \<open>The hole scores the statistics read are those of the rounds in the window.\<close>

lemma mset_filteredScores:
  "mset (filteredScores rng (loadStats uid db)) =
   mset (filter (\<lambda>h. h_round_id h \<in> r_id ` set (filteredRounds rng (loadStats uid db)))
                (sb_hole_scores db))"
proof -
  define st where "st = loadStats uid db"
  define W where "W = filteredRounds rng st"
  have sub: "set W \<subseteq> set (allRounds st)" unfolding W_def by (rule filteredRounds_subset)
  show ?thesis
  proof (cases "allRounds st = []")
    case True
    then have "W = []" using sub by simp
    then show ?thesis
      using True allScoresByRound_loadStats [of uid db]
      by (simp add: filteredScores_def Let_def st_def [symmetric] W_def [symmetric])
  next
    case False
    have "mset (filteredScores rng st) =
          mset (filter (\<lambda>h. h_round_id h \<in> r_id ` set W)
                 (order_asc h_hole_number
                    (filter (\<lambda>h. h_round_id h \<in> r_id ` set (allRounds st)) (sb_hole_scores db))))"
      using False allScoresByRound_loadStats [of uid db]
        mset_scoresByRound [of "\<lambda>k. k \<in> r_id ` set W"]
      by (simp add: filteredScores_def Let_def st_def [symmetric] W_def [symmetric])
    also have "\<dots> = mset (filter (\<lambda>h. h_round_id h \<in> r_id ` set W)
                    (filter (\<lambda>h. h_round_id h \<in> r_id ` set (allRounds st)) (sb_hole_scores db)))"
      by (simp only: order_asc_def mset_filter mset_sort)
    also have "\<dots> = mset (filter (\<lambda>h. h_round_id h \<in> r_id ` set W) (sb_hole_scores db))"
    proof -
      have "filter (\<lambda>h. h_round_id h \<in> r_id ` set (allRounds st) \<and> h_round_id h \<in> r_id ` set W)
              (sb_hole_scores db) =
            filter (\<lambda>h. h_round_id h \<in> r_id ` set W) (sb_hole_scores db)"
        by (rule filter_cong) (use sub in auto)
      then show ?thesis by (simp only: filter_filter)
    qed
    finally show ?thesis by (simp add: st_def W_def)
  qed
qed

lemma feed_entry_holes:
  assumes "r \<in> set roundsData"
  shows "map_get (scoresByRound (filter (\<lambda>h. h_round_id h \<in> r_id ` set roundsData) tbl))
           (r_id r) = filter (\<lambda>h. h_round_id h = r_id r) tbl"
proof -
  have "filter (\<lambda>h. h_round_id h \<in> r_id ` set roundsData \<and> h_round_id h = r_id r) tbl =
        filter (\<lambda>h. h_round_id h = r_id r) tbl"
    by (rule filter_cong) (use assms in auto)
  then show ?thesis by (simp add: map_get_scoresByRound)
qed

text \<open>The statistics of a feed entry are those of the hole scores of its round.\<close>

lemma map_avg_putts_loadFeed:
  "map avg_putts (loadFeed uid db) =
   map (\<lambda>r. feed_avg_putts (filter (\<lambda>h. h_round_id h = r_id r) (sb_hole_scores db)))
       (feed_roundsData uid db)"
  unfolding loadFeed_def Let_def map_map
  by (rule map_cong [OF refl]) (simp add: feed_entry_holes)

lemma map_fairway_pct_loadFeed:
  "map fairway_pct (loadFeed uid db) =
   map (\<lambda>r. feed_fairway_pct (filter (\<lambda>h. h_round_id h = r_id r) (sb_hole_scores db)))
       (feed_roundsData uid db)"
  unfolding loadFeed_def Let_def map_map
  by (rule map_cong [OF refl]) (simp add: feed_entry_holes)

lemma map_gir_pct_loadFeed:
  "map gir_pct (loadFeed uid db) =
   map (\<lambda>r. feed_gir_pct (filter (\<lambda>h. h_round_id h = r_id r) (sb_hole_scores db)))
       (feed_roundsData uid db)"
  unfolding loadFeed_def Let_def map_map
  by (rule map_cong [OF refl]) (simp add: feed_entry_holes)

section \<open>C1: score classification\<close>

text \<open>
  C1 (as stated in the specification): the classifier returns \<open>Unknown\<close> whenever
  \<open>score \<le> 0\<close> or \<open>par \<le> 0\<close>. The guard of the code is \<^verbatim>\<open>!score || !par\<close>, which
  a negative number passes: a score of \<open>-1\<close> on a par 4 is drawn as an eagle.
\<close>

theorem C1_negative_score_counterexample:
  "(-1::int) \<le> 0 \<and> ScoreCell (Some (-1)) (Some 4) = EagleOrBetter \<and>
   ScoreCell (Some (-1)) (Some 4) \<noteq> Unknown"
  by (simp add: ScoreCell_def)

text \<open>
  C1 (amended): the classifier is a total function into the seven categories; it returns
  \<open>Unknown\<close> exactly when the score or the par is absent or zero, and otherwise the
  category of \<open>diff = score - par\<close>: eagle or better up to \<open>-2\<close>, birdie at \<open>-1\<close>, par
  at \<open>0\<close>, bogey at \<open>1\<close>, double bogey at \<open>2\<close>, triple or worse from \<open>3\<close>.
\<close>

theorem C1_classify:
  "(ScoreCell sc pr = Unknown \<longleftrightarrow>
      sc = None \<or> sc = Some 0 \<or> pr = None \<or> pr = Some 0) \<and>
   (sc = Some s \<and> pr = Some p \<and> s \<noteq> 0 \<and> p \<noteq> 0 \<longrightarrow>
      (s - p \<le> -2 \<longrightarrow> ScoreCell sc pr = EagleOrBetter) \<and>
      (s - p = -1 \<longrightarrow> ScoreCell sc pr = Birdie) \<and>
      (s - p = 0 \<longrightarrow> ScoreCell sc pr = Par) \<and>
      (s - p = 1 \<longrightarrow> ScoreCell sc pr = Bogey) \<and>
      (s - p = 2 \<longrightarrow> ScoreCell sc pr = DoubleBogey) \<and>
      (s - p \<ge> 3 \<longrightarrow> ScoreCell sc pr = TripleOrWorse))"
  by (cases sc; cases pr) (auto simp: ScoreCell_def Let_def)

theorem C1_classify_witness:
  "ScoreCell (Some 3) (Some 4) = Birdie \<and> ScoreCell (Some 7) (Some 4) = TripleOrWorse \<and>
   ScoreCell (Some 2) (Some 5) = EagleOrBetter \<and> ScoreCell (Some 4) (Some 4) = Par \<and>
   ScoreCell (Some 5) (Some 4) = Bogey \<and> ScoreCell (Some 6) (Some 4) = DoubleBogey"
  using C1_classify [of "Some 3" "Some 4" 3 4] C1_classify [of "Some 7" "Some 4" 7 4]
    C1_classify [of "Some 2" "Some 5" 2 5] C1_classify [of "Some 4" "Some 4" 4 4]
    C1_classify [of "Some 5" "Some 4" 5 4] C1_classify [of "Some 6" "Some 4" 6 4]
  by simp

section \<open>C2: putts per round and putts per hole\<close>

text \<open>
  C2: the statistics screen divides the putts of all putt-tracked holes of the rounds in the
  window by the number of those rounds; the feed divides the putts of the putt-tracked
  holes of one round by the number of those holes. Both round to one decimal. For a
  single round of 18 holes with two putts each, the first is 36 and the second is 2.
\<close>

theorem C2_avg_putts_per_round_and_per_hole:
  "avgPutts rng (loadStats uid db) =
     (let W = filteredRounds rng (loadStats uid db);
          P = filter (\<lambda>h. h_round_id h \<in> r_id ` set W \<and> h_putts h \<noteq> None) (sb_hole_scores db)
      in if P \<noteq> [] \<and> W \<noteq> []
         then round_tenth (sum_list (map (\<lambda>h. or0 (h_putts h)) P)) (length W) else Num 0) \<and>
   map avg_putts (loadFeed uid db) =
     map (\<lambda>r. let P = filter (\<lambda>h. h_round_id h = r_id r \<and> h_putts h \<noteq> None) (sb_hole_scores db)
              in if P \<noteq> []
                 then Some (round_tenth (sum_list (map (\<lambda>h. or0 (h_putts h)) P)) (length P))
                 else None)
         (feed_roundsData uid db) \<and>
   avgPutts Range_all (loadStats ''u1'' db_18_holes) = Num 36 \<and>
   map avg_putts (loadFeed ''u1'' db_18_holes) = [Some (Num 2)]"
proof (intro conjI)
  define st where "st = loadStats uid db"
  define W where "W = filteredRounds rng st"
  define P where
    "P = filter (\<lambda>h. h_round_id h \<in> r_id ` set W \<and> h_putts h \<noteq> None) (sb_hole_scores db)"
  define puttHoles where "puttHoles = filter (\<lambda>s. h_putts s \<noteq> None) (filteredScores rng st)"
  have m: "mset puttHoles = mset P"
    unfolding puttHoles_def P_def W_def st_def
    using mset_eq_filter [OF mset_filteredScores, of "\<lambda>s. h_putts s \<noteq> None" rng uid db]
    by (simp only: filter_filter)
  have e: "length puttHoles \<noteq> 0 \<longleftrightarrow> P \<noteq> []"
    using mset_eq_Nil_iff [OF m] by simp
  have s: "foldl (\<lambda>s h. s + or0 (h_putts h)) 0 puttHoles = sum_list (map (\<lambda>h. or0 (h_putts h)) P)"
    using mset_eq_sum_list_map [OF m, of "\<lambda>h. or0 (h_putts h)"]
    by (simp add: foldl_add_sum_list)
  have "avgPutts rng st =
          (if P \<noteq> [] \<and> W \<noteq> []
           then round_tenth (sum_list (map (\<lambda>h. or0 (h_putts h)) P)) (length W) else Num 0)"
    unfolding avgPutts_def Let_def puttHoles_def [symmetric] W_def [symmetric] s e by simp
  then show "avgPutts rng (loadStats uid db) =
     (let W = filteredRounds rng (loadStats uid db);
          P = filter (\<lambda>h. h_round_id h \<in> r_id ` set W \<and> h_putts h \<noteq> None) (sb_hole_scores db)
      in if P \<noteq> [] \<and> W \<noteq> []
         then round_tenth (sum_list (map (\<lambda>h. or0 (h_putts h)) P)) (length W) else Num 0)"
    by (simp add: Let_def st_def W_def P_def)
next
  have fp: "feed_avg_putts (filter (\<lambda>h. h_round_id h = rid) tbl) =
        (let P = filter (\<lambda>h. h_round_id h = rid \<and> h_putts h \<noteq> None) tbl
         in if P \<noteq> []
            then Some (round_tenth (sum_list (map (\<lambda>h. or0 (h_putts h)) P)) (length P))
            else None)" for rid tbl
    by (simp add: feed_avg_putts_def Let_def foldl_add_sum_list)
  show "map avg_putts (loadFeed uid db) =
     map (\<lambda>r. let P = filter (\<lambda>h. h_round_id h = r_id r \<and> h_putts h \<noteq> None) (sb_hole_scores db)
              in if P \<noteq> []
                 then Some (round_tenth (sum_list (map (\<lambda>h. or0 (h_putts h)) P)) (length P))
                 else None)
         (feed_roundsData uid db)"
    by (simp only: map_avg_putts_loadFeed fp)
next
  show "avgPutts Range_all (loadStats ''u1'' db_18_holes) = Num 36" by code_simp
next
  show "map avg_putts (loadFeed ''u1'' db_18_holes) = [Some (Num 2)]" by code_simp
qed

section \<open>C3: percentages over an empty subset\<close>

lemma filteredScores_no_rounds: "filteredRounds rng st = [] \<Longrightarrow> filteredScores rng st = []"
  by (simp add: filteredScores_def)

lemma fl_zero: "fl 0 = 0"
  by (simp add: fl_def)

text \<open>
  C3 (as stated in the specification): every aggregation reports a percentage over an empty
  subset as null, never as 0. The statistics screen reports \<open>0\<close>: for the round of
  \<open>db_18_holes\<close>, which has no hole with a recorded fairway, \<open>fwPct\<close> is \<open>0\<close> and the card
  shows \<open>0%\<close>.
\<close>

theorem C3_stats_zero_counterexample:
  "filter (\<lambda>s. h_fairway_hit s \<noteq> None)
     (filteredScores Range_all (loadStats ''u1'' db_18_holes)) = [] \<and>
   fwPct Range_all (loadStats ''u1'' db_18_holes) = Num 0"
  by code_simp

text \<open>
  C3 (amended): no aggregation divides by zero: every percentage, average and rate of the
  feed and of the statistics screen, and every club average, is a finite number, never
  \<open>NaN\<close> or an infinity. In the feed a statistic is null exactly when its subset of holes
  is empty (no hole with a recorded fairway, green or putts), so an empty list of holes
  gives null for all three. On the statistics screen a percentage or average over an empty
  subset is \<open>0\<close> (no hole with a recorded fairway, green or putts, no missed fairway with
  a direction, no hole with a wedge count, no round), and so are the rates per round
  without a round. The totals of a round with no active hole are \<open>0\<close>.
\<close>

theorem C3_empty_subset:
  "(feed_fairway_pct hs = None \<longleftrightarrow> filter (\<lambda>h. h_fairway_hit h \<noteq> None) hs = []) \<and>
   (feed_gir_pct hs = None \<longleftrightarrow> filter (\<lambda>h. h_gir h \<noteq> None) hs = []) \<and>
   (feed_avg_putts hs = None \<longleftrightarrow> filter (\<lambda>h. h_putts h \<noteq> None) hs = []) \<and>
   feed_fairway_pct [] = None \<and> feed_gir_pct [] = None \<and> feed_avg_putts [] = None \<and>
   feed_fairway_pct hs \<in> insert None (Some ` range Num) \<and>
   feed_gir_pct hs \<in> insert None (Some ` range Num) \<and>
   feed_avg_putts hs \<in> insert None (Some ` range Num) \<and>
   fwPct rng st \<in> range Num \<and> girPct rng st \<in> range Num \<and>
   avgPutts rng st \<in> range Num \<and> avgScore rng st \<in> range Num \<and>
   missLPct rng st \<in> range Num \<and> missRPct rng st \<in> range Num \<and>
   onePuttsPer18 rng st \<in> range Num \<and> threePuttsPer18 rng st \<in> range Num \<and>
   wedgeInAvg rng st \<in> range Num \<and>
   avgDistance ` set (clubs (loadStats uid db)) \<subseteq> range Num \<and>
   (filter (\<lambda>s. h_fairway_hit s \<noteq> None) (filteredScores rng st) = [] \<longrightarrow>
      fwPct rng st = Num 0) \<and>
   (filter (\<lambda>sc. h_fairway_hit sc = Some False \<and> h_fairway_miss_dir sc \<noteq> None \<and>
                 h_fairway_miss_dir sc \<noteq> Some []) (filteredScores rng st) = [] \<longrightarrow>
      missLPct rng st = Num 0 \<and> missRPct rng st = Num 0) \<and>
   (filter (\<lambda>sc. h_wedge_and_in sc \<noteq> None) (filteredScores rng st) = [] \<longrightarrow>
      wedgeInAvg rng st = Num 0) \<and>
   (filter (\<lambda>s. h_gir s \<noteq> None) (filteredScores rng st) = [] \<longrightarrow> girPct rng st = Num 0) \<and>
   (filter (\<lambda>s. h_putts s \<noteq> None) (filteredScores rng st) = [] \<longrightarrow>
      avgPutts rng st = Num 0) \<and>
   (filteredRounds rng st = [] \<longrightarrow>
      avgScore rng st = Num 0 \<and> avgPutts rng st = Num 0 \<and>
      onePuttsPer18 rng st = Num 0 \<and> threePuttsPer18 rng st = Num 0) \<and>
   (activeIndices ls = [] \<longrightarrow> totalScore ls = 0 \<and> totalPutts ls = 0)"
proof -
  have f1: "feed_fairway_pct hs = None \<longleftrightarrow> filter (\<lambda>h. h_fairway_hit h \<noteq> None) hs = []"
    by (simp add: feed_fairway_pct_def Let_def)
  have f2: "feed_gir_pct hs = None \<longleftrightarrow> filter (\<lambda>h. h_gir h \<noteq> None) hs = []"
    by (simp add: feed_gir_pct_def Let_def)
  have f3: "feed_avg_putts hs = None \<longleftrightarrow> filter (\<lambda>h. h_putts h \<noteq> None) hs = []"
    by (simp add: feed_avg_putts_def Let_def)
  have f4: "feed_fairway_pct [] = None" "feed_gir_pct [] = None" "feed_avg_putts [] = None"
    by (simp_all add: feed_fairway_pct_def feed_gir_pct_def feed_avg_putts_def)
  have f5: "feed_fairway_pct hs \<in> insert None (Some ` range Num)"
    using round_pct_finite by (auto simp: feed_fairway_pct_def Let_def)
  have f6: "feed_gir_pct hs \<in> insert None (Some ` range Num)"
    using round_pct_finite by (auto simp: feed_gir_pct_def Let_def)
  have f7: "feed_avg_putts hs \<in> insert None (Some ` range Num)"
    using round_tenth_finite by (auto simp: feed_avg_putts_def Let_def)
  have s1: "fwPct rng st \<in> range Num"
    using round_pct_finite by (auto simp: fwPct_def Let_def)
  have s2: "girPct rng st \<in> range Num"
    using round_pct_finite by (auto simp: girPct_def Let_def)
  have s3: "avgPutts rng st \<in> range Num"
    using round_tenth_finite by (auto simp: avgPutts_def Let_def)
  have s4: "avgScore rng st \<in> range Num"
    using round_tenth_finite by (auto simp: avgScore_def Let_def)
  have s5: "missLPct rng st \<in> range Num"
    using round_pct_finite by (auto simp: missLPct_def Let_def)
  have s6: "missRPct rng st \<in> range Num"
    using round_pct_finite by (auto simp: missRPct_def Let_def)
  have s7: "onePuttsPer18 rng st \<in> range Num"
    by (simp add: onePuttsPer18_def roundCount_def)
  have s8: "threePuttsPer18 rng st \<in> range Num"
    by (simp add: threePuttsPer18_def roundCount_def)
  have s9: "wedgeInAvg rng st \<in> range Num"
    by (simp add: wedgeInAvg_def)
  have c: "avgDistance ` set (clubs (loadStats uid db)) \<subseteq> range Num"
  proof -
    have "clubs (loadStats uid db) = [] \<or> (\<exists>shts. clubs (loadStats uid db) = clubStats shts)"
      by (auto simp: loadStats_def Let_def)
    then show ?thesis
    proof
      assume "clubs (loadStats uid db) = []"
      then show ?thesis by simp
    next
      assume "\<exists>shts. clubs (loadStats uid db) = clubStats shts"
      then obtain shts where "clubs (loadStats uid db) = clubStats shts" ..
      then show ?thesis by (simp only: clubStats_finite)
    qed
  qed
  have e1: "filter (\<lambda>s. h_fairway_hit s \<noteq> None) (filteredScores rng st) = [] \<longrightarrow>
      fwPct rng st = Num 0"
    by (simp add: fwPct_def)
  have e1a: "filter (\<lambda>sc. h_fairway_hit sc = Some False \<and> h_fairway_miss_dir sc \<noteq> None \<and>
                 h_fairway_miss_dir sc \<noteq> Some []) (filteredScores rng st) = [] \<longrightarrow>
      missLPct rng st = Num 0 \<and> missRPct rng st = Num 0"
    by (simp add: missLPct_def missRPct_def)
  have e1b: "filter (\<lambda>sc. h_wedge_and_in sc \<noteq> None) (filteredScores rng st) = [] \<longrightarrow>
      wedgeInAvg rng st = Num 0"
    by (simp add: wedgeInAvg_def wedgeInTotal_def)
  have e2: "filter (\<lambda>s. h_gir s \<noteq> None) (filteredScores rng st) = [] \<longrightarrow> girPct rng st = Num 0"
    by (simp add: girPct_def)
  have e3: "filter (\<lambda>s. h_putts s \<noteq> None) (filteredScores rng st) = [] \<longrightarrow>
      avgPutts rng st = Num 0"
    by (simp add: avgPutts_def)
  have e4: "filteredRounds rng st = [] \<longrightarrow>
      avgScore rng st = Num 0 \<and> avgPutts rng st = Num 0 \<and>
      onePuttsPer18 rng st = Num 0 \<and> threePuttsPer18 rng st = Num 0"
    by (simp add: avgScore_def avgPutts_def onePuttsPer18_def threePuttsPer18_def
        onePuttsTotal_def threePuttsTotal_def roundCount_def filteredScores_no_rounds fl_zero)
  have e5: "activeIndices ls = [] \<longrightarrow> totalScore ls = 0 \<and> totalPutts ls = 0"
    by (simp add: totalScore_def totalPutts_def)
  show ?thesis
    by (intro conjI f1 f2 f3 f4 f5 f6 f7 s1 s2 s3 s4 s5 s6 s7 s8 s9 c e1 e1a e1b e2 e3 e4 e5)
qed

theorem C3_empty_subset_witness:
  "filter (\<lambda>s. h_fairway_hit s \<noteq> None)
     (filteredScores Range_all (loadStats ''u1'' db_18_holes)) = [] \<and>
   filter (\<lambda>s. h_gir s \<noteq> None) (filteredScores Range_all (loadStats ''u1'' db_18_holes)) = [] \<and>
   filter (\<lambda>sc. h_fairway_hit sc = Some False \<and> h_fairway_miss_dir sc \<noteq> None \<and>
                 h_fairway_miss_dir sc \<noteq> Some [])
     (filteredScores Range_all (loadStats ''u1'' db_18_holes)) = [] \<and>
   filter (\<lambda>sc. h_wedge_and_in sc \<noteq> None)
     (filteredScores Range_all (loadStats ''u1'' db_18_holes)) = [] \<and>
   fwPct Range_all (loadStats ''u1'' db_18_holes) = Num 0 \<and>
   girPct Range_all (loadStats ''u1'' db_18_holes) = Num 0 \<and>
   missLPct Range_all (loadStats ''u1'' db_18_holes) = Num 0 \<and>
   wedgeInAvg Range_all (loadStats ''u1'' db_18_holes) = Num 0 \<and>
   filteredRounds Last_5 (loadStats ''u2'' db_18_holes) = [] \<and>
   filter (\<lambda>s. h_putts s \<noteq> None) (filteredScores Last_5 (loadStats ''u2'' db_18_holes)) = [] \<and>
   avgScore Last_5 (loadStats ''u2'' db_18_holes) = Num 0 \<and>
   avgPutts Last_5 (loadStats ''u2'' db_18_holes) = Num 0 \<and>
   onePuttsPer18 Last_5 (loadStats ''u2'' db_18_holes) = Num 0 \<and>
   activeIndices (log_example\<lparr>selectedHoles := []\<rparr>) = [] \<and>
   totalScore (log_example\<lparr>selectedHoles := []\<rparr>) = 0 \<and>
   feed_fairway_pct [] = None \<and>
   map avgDistance (clubs (loadStats ''u1'' db_clubs)) = [Num 155, Num 140]"
proof -
  have 1: "filter (\<lambda>s. h_fairway_hit s \<noteq> None)
     (filteredScores Range_all (loadStats ''u1'' db_18_holes)) = []"
    by code_simp
  have 2: "filter (\<lambda>s. h_gir s \<noteq> None)
     (filteredScores Range_all (loadStats ''u1'' db_18_holes)) = []"
    by code_simp
  have 3: "filteredRounds Last_5 (loadStats ''u2'' db_18_holes) = []"
    by code_simp
  have 4: "filter (\<lambda>s. h_putts s \<noteq> None)
     (filteredScores Last_5 (loadStats ''u2'' db_18_holes)) = []"
    by code_simp
  have 5: "activeIndices (log_example\<lparr>selectedHoles := []\<rparr>) = []"
    by code_simp
  have 6: "map avgDistance (clubs (loadStats ''u1'' db_clubs)) = [Num 155, Num 140]"
    by code_simp
  have 7: "filter (\<lambda>sc. h_fairway_hit sc = Some False \<and> h_fairway_miss_dir sc \<noteq> None \<and>
                 h_fairway_miss_dir sc \<noteq> Some [])
     (filteredScores Range_all (loadStats ''u1'' db_18_holes)) = []"
    by code_simp
  have 8: "filter (\<lambda>sc. h_wedge_and_in sc \<noteq> None)
     (filteredScores Range_all (loadStats ''u1'' db_18_holes)) = []"
    by code_simp
  have a: "fwPct Range_all (loadStats ''u1'' db_18_holes) = Num 0 \<and>
           girPct Range_all (loadStats ''u1'' db_18_holes) = Num 0 \<and>
           missLPct Range_all (loadStats ''u1'' db_18_holes) = Num 0 \<and>
           wedgeInAvg Range_all (loadStats ''u1'' db_18_holes) = Num 0 \<and>
           totalScore (log_example\<lparr>selectedHoles := []\<rparr>) = 0 \<and>
           feed_fairway_pct [] = None"
    using 1 2 5 7 8
      C3_empty_subset [of "[]" Range_all "loadStats ''u1'' db_18_holes" "''u1''" db_clubs
        "log_example\<lparr>selectedHoles := []\<rparr>"]
    by simp
  have b: "avgScore Last_5 (loadStats ''u2'' db_18_holes) = Num 0 \<and>
           avgPutts Last_5 (loadStats ''u2'' db_18_holes) = Num 0 \<and>
           onePuttsPer18 Last_5 (loadStats ''u2'' db_18_holes) = Num 0"
    using 3 4
      C3_empty_subset [of "[]" Last_5 "loadStats ''u2'' db_18_holes" "''u1''" db_clubs
        "log_example\<lparr>selectedHoles := []\<rparr>"]
    by simp
  show ?thesis
    using 1 2 3 4 5 6 7 8 a b by simp
qed

section \<open>C4: the fairway percentage\<close>

text \<open>
  C4 (as stated in the specification): the fairway percentage is
  \<open>round (100 * hits / |F|)\<close>. The code computes \<^verbatim>\<open>Math.round(hits / |F| * 100)\<close> in
  binary64. With 23 fairways hit out of 40, \<open>100 * 23 / 40\<close> is \<open>57.5\<close>, which rounds to
  \<open>58\<close>; the quotient \<open>23 / 40\<close> is rounded first, its product with \<open>100\<close> falls just below
  \<open>57.5\<close>, and the screen shows \<open>57\<close>.
\<close>

theorem C4_half_percent_counterexample:
  "length (filter (\<lambda>s. h_fairway_hit s \<noteq> None)
     (filteredScores Range_all (loadStats ''u1'' db_23_of_40))) = 40 \<and>
   length (filter (\<lambda>s. h_fairway_hit s = Some True)
     (filteredScores Range_all (loadStats ''u1'' db_23_of_40))) = 23 \<and>
   fwPct Range_all (loadStats ''u1'' db_23_of_40) = Num 57 \<and>
   \<lfloor>100 * 23 / 40 + 1 / (2::rat)\<rfloor> = 58"
proof (intro conjI)
  show "length (filter (\<lambda>s. h_fairway_hit s \<noteq> None)
     (filteredScores Range_all (loadStats ''u1'' db_23_of_40))) = 40" by code_simp
  show "length (filter (\<lambda>s. h_fairway_hit s = Some True)
     (filteredScores Range_all (loadStats ''u1'' db_23_of_40))) = 23" by code_simp
  show "fwPct Range_all (loadStats ''u1'' db_23_of_40) = Num 57" by code_simp
  show "\<lfloor>100 * 23 / 40 + 1 / (2::rat)\<rfloor> = 58" by simp
qed

text \<open>
  C4 (amended): the fairway percentage is computed only over the holes whose \<open>fairwayHit\<close>
  is not null: a hole with a null \<open>fairwayHit\<close> does not enter the computation at all. With
  \<open>F\<close> that subset (non-empty, fewer than \<open>2 ^ 44\<close> holes) and \<open>k\<close> the number of its holes
  that hit the fairway, the result is \<open>round (100 * k / |F|)\<close>, halves rounding up, whenever
  \<open>100 * k / |F|\<close> is not exactly halfway between two integers. This holds for the feed
  and for the statistics screen. For the holes hit, null, missed the result is 50.
\<close>

theorem C4_fairway_pct:
  assumes F: "F = filter (\<lambda>h. h_fairway_hit h \<noteq> None) hs"
    and k: "k = length (filter (\<lambda>h. h_fairway_hit h = Some True) F)"
    and ne: "F \<noteq> []" and small: "int (length F) < 2 ^ 44"
    and nh: "frac (100 * of_nat k / of_nat (length F) :: rat) \<noteq> 1 / 2"
  shows "feed_fairway_pct hs =
           Some (Num \<lfloor>100 * of_nat k / of_nat (length F) + 1 / (2::rat)\<rfloor>) \<and>
         feed_fairway_pct F = feed_fairway_pct hs \<and>
         (hs = filteredScores rng st \<longrightarrow>
            fwPct rng st = Num \<lfloor>100 * of_nat k / of_nat (length F) + 1 / (2::rat)\<rfloor>)"
proof -
  have kn: "k \<le> length F" unfolding k by simp
  have n0: "0 < length F" using ne by simp
  have nb: "length F < 2 ^ 44"
  proof -
    have "int (length F) < int (2 ^ 44)" using small by simp
    then show ?thesis by (simp only: of_nat_less_iff)
  qed
  have r: "round_pct k (length F) =
           Num \<lfloor>100 * of_nat k / of_nat (length F) + 1 / (2::rat)\<rfloor>"
    unfolding round_pct_def using kn n0 nb nh by (rule Math_round_pct)
  have 1: "feed_fairway_pct hs = Some (round_pct k (length F))"
    using ne by (simp add: feed_fairway_pct_def Let_def F k)
  have 2: "feed_fairway_pct F = feed_fairway_pct hs"
    by (simp add: feed_fairway_pct_def Let_def F)
  have 3: "hs = filteredScores rng st \<Longrightarrow> fwPct rng st = round_pct k (length F)"
    using ne by (simp add: fwPct_def Let_def F k)
  show ?thesis using 1 2 3 r by simp
qed

theorem C4_fairway_pct_witness:
  "filter (\<lambda>h. h_fairway_hit h \<noteq> None) holes_fw_example \<noteq> [] \<and>
   length (filter (\<lambda>h. h_fairway_hit h \<noteq> None) holes_fw_example) = 2 \<and>
   feed_fairway_pct holes_fw_example = Some (Num 50)"
proof -
  define F where "F = filter (\<lambda>h. h_fairway_hit h \<noteq> None) holes_fw_example"
  define k where "k = length (filter (\<lambda>h. h_fairway_hit h = Some True) F)"
  have n: "length F = 2" unfolding F_def by code_simp
  have k1: "k = 1" unfolding k_def F_def by code_simp
  have ne: "F \<noteq> []" using n by auto
  have nh: "frac (100 * of_nat k / of_nat (length F) :: rat) \<noteq> 1 / 2"
    unfolding n k1 by (simp add: frac_def)
  have "feed_fairway_pct holes_fw_example =
        Some (Num \<lfloor>100 * of_nat k / of_nat (length F) + 1 / (2::rat)\<rfloor>)"
    using C4_fairway_pct [OF F_def k_def ne _ nh] n by simp
  moreover have "\<lfloor>100 * of_nat 1 / of_nat 2 + 1 / (2::rat)\<rfloor> = 50"
    by (rule floor_unique) simp_all
  ultimately have "feed_fairway_pct holes_fw_example = Some (Num 50)"
    unfolding n k1 by (simp only:)
  then show ?thesis using ne n unfolding F_def by simp
qed

section \<open>C5: the window of the statistics\<close>

lemma sorted_order_asc: "sorted (map col (order_asc col rows))"
  by (simp add: order_asc_def)

lemma drop_as_nths:
  assumes "length xs = 12"
  shows "drop 7 xs = map (\<lambda>i. xs ! i) [7, 8, 9, 10, 11]"
proof -
  have u: "[7, 8, 9, 10, 11] = [7 ..< (12::nat)]" by code_simp
  have "drop 7 xs = drop 7 (map (\<lambda>i. xs ! i) [0 ..< length xs])" by (simp only: map_nth)
  also have "\<dots> = map (\<lambda>i. xs ! i) [7 ..< 12]" by (simp only: drop_map drop_upt assms) simp
  finally show ?thesis by (simp only: u)
qed

lemma pct_of_mset:
  assumes "mset xs = mset ys"
  shows "(let F = filter Q xs
          in if length F \<noteq> 0 then round_pct (length (filter P F)) (length F) else Num 0) =
         pct_of P (filter Q ys)"
proof -
  have m: "mset (filter Q xs) = mset (filter Q ys)" using assms by (rule mset_eq_filter)
  have l: "length (filter Q xs) = length (filter Q ys)" using m by (rule mset_eq_length)
  have k: "length (filter P (filter Q xs)) = length (filter P (filter Q ys))"
    using m by (rule mset_eq_length_filter)
  show ?thesis unfolding pct_of_def Let_def k l by simp
qed

text \<open>
  C5: the statistics screen receives the completed rounds of the user ordered by
  \<open>date_played\<close> ascending. For a numeric window \<open>N\<close> of 3, 5, 10 or 25 let \<open>W\<close> be the last
  \<open>N\<close> rounds of that list (\<open>rounds.slice(-N)\<close>) and \<open>H\<close> the hole scores of the rounds in
  \<open>W\<close>. The screen computes its statistics over exactly these: the average score, the
  fairway and green percentages, the putts per round, the miss percentages, the rates
  of one-putts and three-putts, the wedge counts and the scoring trend are the ones of
  \<open>W\<close> and \<open>H\<close>. With 12 rounds and the window 5 the rounds are those at the indices 7
  to 11.
\<close>

theorem C5_window:
  assumes rng: "(rng, N) \<in> {(Last_3, 3), (Last_5, 5), (Last_10, 10), (Last_25, 25)}"
    and st: "st = loadStats uid db"
    and W: "W = drop (length (allRounds st) - N) (allRounds st)"
    and H: "H = filter (\<lambda>h. h_round_id h \<in> r_id ` set W) (sb_hole_scores db)"
  shows "mset (allRounds st) =
           mset (filter (\<lambda>r. r_user_id r = uid \<and> r_is_complete r = Some True) (sb_rounds db)) \<and>
         sorted (map r_date_played (allRounds st)) \<and>
         filteredRounds rng st = W \<and>
         mset (filteredScores rng st) = mset H \<and>
         avgScore rng st =
           (if W = [] then Num 0
            else round_tenth (sum_list (map (\<lambda>r. or0 (r_total_score r)) W)) (length W)) \<and>
         fwPct rng st =
           pct_of (\<lambda>h. h_fairway_hit h = Some True) (filter (\<lambda>h. h_fairway_hit h \<noteq> None) H) \<and>
         girPct rng st = pct_of (\<lambda>h. h_gir h = Some True) (filter (\<lambda>h. h_gir h \<noteq> None) H) \<and>
         avgPutts rng st =
           (let P = filter (\<lambda>h. h_putts h \<noteq> None) H
            in if P = [] \<or> W = [] then Num 0
               else round_tenth (sum_list (map (\<lambda>h. or0 (h_putts h)) P)) (length W)) \<and>
         missLPct rng st =
           pct_of (\<lambda>h. h_fairway_miss_dir h = Some ''L'')
             (filter (\<lambda>h. h_fairway_hit h = Some False \<and> h_fairway_miss_dir h \<noteq> None \<and>
                          h_fairway_miss_dir h \<noteq> Some []) H) \<and>
         missRPct rng st =
           pct_of (\<lambda>h. h_fairway_miss_dir h = Some ''R'')
             (filter (\<lambda>h. h_fairway_hit h = Some False \<and> h_fairway_miss_dir h \<noteq> None \<and>
                          h_fairway_miss_dir h \<noteq> Some []) H) \<and>
         onePuttsPer18 rng st =
           js_div (Num (of_nat (length (filter (\<lambda>h. h_putts h = Some 1) H))))
                  (of_nat (if W = [] then 1 else length W)) \<and>
         threePuttsPer18 rng st =
           js_div (Num (of_nat (length (filter (\<lambda>h. h_putts h \<noteq> None \<and> 3 \<le> or0 (h_putts h)) H))))
                  (of_nat (if W = [] then 1 else length W)) \<and>
         wedgeInTotal rng st = length (filter (\<lambda>h. h_wedge_and_in h \<noteq> None) H) \<and>
         wedgeInMade rng st = sum_list (map (\<lambda>h. or0 (h_wedge_and_in h)) H) \<and>
         scoreData rng st =
           map (\<lambda>r. (r_date_played r, or0 (r_total_score r))) (drop (length W - 10) W) \<and>
         (length (allRounds st) = 12 \<longrightarrow>
            filteredRounds Last_5 st = map (\<lambda>i. allRounds st ! i) [7, 8, 9, 10, 11])"
proof -
  have sl: "filteredRounds r st = drop (length (allRounds st) - n) (allRounds st)"
    if "(r, n) \<in> {(Last_3, 3), (Last_5, 5), (Last_10, 10), (Last_25, 25)}" for r and n :: nat
    using that by (auto simp: filteredRounds_def js_slice_last)
  have fr: "filteredRounds rng st = W" unfolding W using rng by (rule sl)
  have ms: "mset (filteredScores rng st) = mset H"
    unfolding H fr [symmetric] st by (rule mset_filteredScores)
  have 1: "mset (allRounds st) =
          mset (filter (\<lambda>r. r_user_id r = uid \<and> r_is_complete r = Some True) (sb_rounds db))"
    unfolding st allRounds_loadStats by (simp add: order_asc_def)
  have 2: "sorted (map r_date_played (allRounds st))"
    unfolding st allRounds_loadStats by (rule sorted_order_asc)
  have 3: "avgScore rng st =
           (if W = [] then Num 0
            else round_tenth (sum_list (map (\<lambda>r. or0 (r_total_score r)) W)) (length W))"
    by (simp add: avgScore_def Let_def fr foldl_add_sum_list)
  have 4: "fwPct rng st =
           pct_of (\<lambda>h. h_fairway_hit h = Some True) (filter (\<lambda>h. h_fairway_hit h \<noteq> None) H)"
    unfolding fwPct_def using ms by (rule pct_of_mset)
  have 5: "girPct rng st = pct_of (\<lambda>h. h_gir h = Some True) (filter (\<lambda>h. h_gir h \<noteq> None) H)"
    unfolding girPct_def using ms by (rule pct_of_mset)
  have 6: "avgPutts rng st =
           (let P = filter (\<lambda>h. h_putts h \<noteq> None) H
            in if P = [] \<or> W = [] then Num 0
               else round_tenth (sum_list (map (\<lambda>h. or0 (h_putts h)) P)) (length W))"
  proof -
    have m: "mset (filter (\<lambda>s. h_putts s \<noteq> None) (filteredScores rng st)) =
             mset (filter (\<lambda>h. h_putts h \<noteq> None) H)"
      using ms by (rule mset_eq_filter)
    have e: "filter (\<lambda>s. h_putts s \<noteq> None) (filteredScores rng st) = [] \<longleftrightarrow>
             filter (\<lambda>h. h_putts h \<noteq> None) H = []"
      using m by (rule mset_eq_Nil_iff)
    have s: "sum_list (map (\<lambda>h. or0 (h_putts h))
                (filter (\<lambda>s. h_putts s \<noteq> None) (filteredScores rng st))) =
             sum_list (map (\<lambda>h. or0 (h_putts h)) (filter (\<lambda>h. h_putts h \<noteq> None) H))"
      using m by (rule mset_eq_sum_list_map)
    show ?thesis
      by (simp add: avgPutts_def Let_def fr foldl_add_sum_list e s del: not_None_eq)
  qed
  have 7: "missLPct rng st =
           pct_of (\<lambda>h. h_fairway_miss_dir h = Some ''L'')
             (filter (\<lambda>h. h_fairway_hit h = Some False \<and> h_fairway_miss_dir h \<noteq> None \<and>
                          h_fairway_miss_dir h \<noteq> Some []) H)"
    unfolding missLPct_def using ms by (rule pct_of_mset)
  have 8: "missRPct rng st =
           pct_of (\<lambda>h. h_fairway_miss_dir h = Some ''R'')
             (filter (\<lambda>h. h_fairway_hit h = Some False \<and> h_fairway_miss_dir h \<noteq> None \<and>
                          h_fairway_miss_dir h \<noteq> Some []) H)"
    unfolding missRPct_def using ms by (rule pct_of_mset)
  have rc: "roundCount rng st = (if W = [] then 1 else length W)"
    by (simp add: roundCount_def fr)
  have 9: "onePuttsPer18 rng st =
           js_div (Num (of_nat (length (filter (\<lambda>h. h_putts h = Some 1) H))))
                  (of_nat (if W = [] then 1 else length W))"
  proof -
    have "onePuttsTotal rng st =
          length (filter (\<lambda>s. h_putts s = Some 1) (filteredScores rng st))"
      unfolding onePuttsTotal_def filter_filter
      by (rule arg_cong [where f = length], rule filter_cong) auto
    also have "\<dots> = length (filter (\<lambda>h. h_putts h = Some 1) H)"
      using ms by (rule mset_eq_length_filter)
    finally show ?thesis by (simp only: onePuttsPer18_def rc)
  qed
  have 10: "threePuttsPer18 rng st =
           js_div (Num (of_nat (length (filter (\<lambda>h. h_putts h \<noteq> None \<and> 3 \<le> or0 (h_putts h)) H))))
                  (of_nat (if W = [] then 1 else length W))"
  proof -
    have "threePuttsTotal rng st =
          length (filter (\<lambda>h. h_putts h \<noteq> None \<and> 3 \<le> or0 (h_putts h))
                         (filteredScores rng st))"
      unfolding threePuttsTotal_def filter_filter
      by (rule arg_cong [where f = length], rule filter_cong) auto
    also have "\<dots> = length (filter (\<lambda>h. h_putts h \<noteq> None \<and> 3 \<le> or0 (h_putts h)) H)"
      using ms by (rule mset_eq_length_filter)
    finally show ?thesis by (simp only: threePuttsPer18_def rc)
  qed
  have 11: "wedgeInTotal rng st = length (filter (\<lambda>h. h_wedge_and_in h \<noteq> None) H)"
    unfolding wedgeInTotal_def using ms by (rule mset_eq_length_filter)
  have 12: "wedgeInMade rng st = sum_list (map (\<lambda>h. or0 (h_wedge_and_in h)) H)"
  proof -
    have "wedgeInMade rng st =
          sum_list (map (\<lambda>h. or0 (h_wedge_and_in h))
                     (filter (\<lambda>h. h_wedge_and_in h \<noteq> None) (filteredScores rng st)))"
      by (simp add: wedgeInMade_def foldl_add_sum_list)
    also have "\<dots> = sum_list (map (\<lambda>h. or0 (h_wedge_and_in h))
                          (filter (\<lambda>h. h_wedge_and_in h \<noteq> None) H))"
      using mset_eq_filter [OF ms] by (rule mset_eq_sum_list_map)
    also have "\<dots> = sum_list (map (\<lambda>h. or0 (h_wedge_and_in h)) H)"
      by (induction H) auto
    finally show ?thesis .
  qed
  have 14: "scoreData rng st =
           map (\<lambda>r. (r_date_played r, or0 (r_total_score r))) (drop (length W - 10) W)"
    by (simp add: scoreData_def fr js_slice_last)
  have 13: "length (allRounds st) = 12 \<longrightarrow>
          filteredRounds Last_5 st = map (\<lambda>i. allRounds st ! i) [7, 8, 9, 10, 11]"
    using sl [of Last_5 5] drop_as_nths [of "allRounds st"] by simp
  show ?thesis
    by (intro conjI fr ms 1 2 3 4 5 6 7 8 9 10 11 12 14 13)
qed

theorem C5_window_witness:
  "(Last_5, 5) \<in> {(Last_3, 3), (Last_5, 5), (Last_10, 10), (Last_25, 25::nat)} \<and>
   (Last_3, 3) \<in> {(Last_3, 3), (Last_5, 5), (Last_10, 10), (Last_25, 25::nat)} \<and>
   length (allRounds (loadStats ''u1'' db_12_rounds)) = 12 \<and>
   map r_id (allRounds (loadStats ''u1'' db_12_rounds)) =
     [''r01'', ''r02'', ''r03'', ''r04'', ''r05'', ''r06'',
      ''r07'', ''r08'', ''r09'', ''r10'', ''r11'', ''r12''] \<and>
   filteredRounds Last_5 (loadStats ''u1'' db_12_rounds) =
     map (\<lambda>i. allRounds (loadStats ''u1'' db_12_rounds) ! i) [7, 8, 9, 10, 11] \<and>
   filteredRounds Last_3 (loadStats ''u1'' db_12_rounds) =
     drop 9 (allRounds (loadStats ''u1'' db_12_rounds)) \<and>
   map r_id (filteredRounds Last_3 (loadStats ''u1'' db_12_rounds)) = [''r10'', ''r11'', ''r12''] \<and>
   map h_id (filteredScores Last_5 (loadStats ''u1'' db_12_rounds)) = [''h2'', ''h3''] \<and>
   map h_id (filteredScores Last_3 (loadStats ''u1'' db_12_rounds)) = [''h3''] \<and>
   avgPutts Last_5 (loadStats ''u1'' db_12_rounds) = round_tenth 4 5 \<and>
   avgPutts Last_3 (loadStats ''u1'' db_12_rounds) = round_tenth 3 3"
proof -
  define st where "st = loadStats ''u1'' db_12_rounds"
  have l: "length (allRounds st) = 12" unfolding st_def by code_simp
  have i: "map r_id (allRounds st) =
     [''r01'', ''r02'', ''r03'', ''r04'', ''r05'', ''r06'',
      ''r07'', ''r08'', ''r09'', ''r10'', ''r11'', ''r12'']" unfolding st_def by code_simp
  have s5: "map h_id (filteredScores Last_5 st) = [''h2'', ''h3'']"
    unfolding st_def by code_simp
  have s3: "map h_id (filteredScores Last_3 st) = [''h3'']"
    unfolding st_def by code_simp
  have i3: "map r_id (filteredRounds Last_3 st) = [''r10'', ''r11'', ''r12'']"
    unfolding st_def by code_simp
  have p5: "avgPutts Last_5 st = round_tenth 4 5" unfolding st_def by code_simp
  have p3: "avgPutts Last_3 st = round_tenth 3 3" unfolding st_def by code_simp
  have m5: "(Last_5, 5) \<in> {(Last_3, 3), (Last_5, 5), (Last_10, 10), (Last_25, 25::nat)}"
    by simp
  have m3: "(Last_3, 3) \<in> {(Last_3, 3), (Last_5, 5), (Last_10, 10), (Last_25, 25::nat)}"
    by simp
  note c2 = conjunct2
  have "length (allRounds st) = 12 \<longrightarrow>
        filteredRounds Last_5 st = map (\<lambda>i. allRounds st ! i) [7, 8, 9, 10, 11]"
    by (rule C5_window [OF m5 st_def refl refl, THEN c2, THEN c2, THEN c2, THEN c2, THEN c2,
          THEN c2, THEN c2, THEN c2, THEN c2, THEN c2, THEN c2, THEN c2, THEN c2, THEN c2,
          THEN c2])
  then have a: "filteredRounds Last_5 st = map (\<lambda>i. allRounds st ! i) [7, 8, 9, 10, 11]"
    using l by (rule mp)
  have "filteredRounds Last_3 st = drop (length (allRounds st) - 3) (allRounds st)"
    by (rule C5_window [OF m3 st_def refl refl, THEN c2, THEN c2, THEN conjunct1])
  then have b: "filteredRounds Last_3 st = drop 9 (allRounds st)"
    unfolding l by simp
  show ?thesis
    using l i s5 s3 i3 p5 p3 m5 m3 a b unfolding st_def by simp
qed

section \<open>C6: club distances\<close>

lemma foldl_if_filter:
  "foldl (\<lambda>m s. if V s then F m s else m) m0 xs = foldl F m0 (filter V xs)"
  by (induction xs arbitrary: m0) simp_all

lemma not_falsy_iff: "\<not> falsy x \<longleftrightarrow> (\<exists>n. x = Some n \<and> n \<noteq> 0)"
  by (cases x) auto

lemma clubMap_fold:
  "foldl (\<lambda>m s. case (s_club s, s_distance_yards s) of
                   (Some c, Some d) \<Rightarrow> if c = [] \<or> d = 0 then m else map_push c d m
                 | _ \<Rightarrow> m) m0 shts =
   foldl (\<lambda>m s. map_push (club_name s) (or0 (s_distance_yards s)) m) m0 (filter kept_shot shts)"
  by (induction shts arbitrary: m0) (auto simp: kept_shot_def club_name_def split: option.splits)

lemma clubMap_as_group:
  "clubMap shts =
     foldl (\<lambda>m s. map_push (club_name s) (or0 (s_distance_yards s)) m) [] (filter kept_shot shts)"
  unfolding clubMap_def by (rule clubMap_fold)

lemma map_of_clubMap:
  assumes "c \<noteq> []"
  shows "map_of (clubMap shts) c =
           (if club_distances shts c = [] then None else Some (club_distances shts c))"
proof -
  have f: "filter (\<lambda>s. club_name s = c) (filter kept_shot shts) =
        filter (\<lambda>s. s_club s = Some c \<and> \<not> falsy (s_distance_yards s)) shts"
    unfolding filter_filter
    by (rule filter_cong)
      (use assms in \<open>auto simp: kept_shot_def club_name_def split: option.splits\<close>)
  have "map_of (clubMap shts) c =
        (if filter (\<lambda>s. club_name s = c) (filter kept_shot shts) = [] then None
         else Some (map (\<lambda>s. or0 (s_distance_yards s))
                (filter (\<lambda>s. club_name s = c) (filter kept_shot shts))))"
    unfolding clubMap_as_group
    using map_of_group [of club_name "\<lambda>s. or0 (s_distance_yards s)" "[]" "filter kept_shot shts" c]
    by simp
  then show ?thesis
    unfolding f club_distances_def by simp
qed

lemma keys_clubMap_nonempty: "(c, ds) \<in> set (clubMap shts) \<Longrightarrow> c \<noteq> []"
proof -
  assume "(c, ds) \<in> set (clubMap shts)"
  then have "c \<in> fst ` set (clubMap shts)" by force
  then show ?thesis
    unfolding clubMap_as_group fst_set_group
    by (auto simp: kept_shot_def club_name_def split: option.splits)
qed

lemma distinct_clubMap: "distinct (map fst (clubMap shts))"
  unfolding clubMap_as_group by (rule distinct_group) simp

lemma set_clubMap:
  "set (clubMap shts) = {(c, ds). c \<noteq> [] \<and> ds \<noteq> [] \<and> ds = club_distances shts c}"
proof (intro set_eqI iffI)
  fix p assume p: "p \<in> set (clubMap shts)"
  obtain c ds where cd: "p = (c, ds)" by (cases p)
  have c: "c \<noteq> []" using p cd keys_clubMap_nonempty by blast
  have "map_of (clubMap shts) c = Some ds"
    using p cd distinct_clubMap by (simp add: map_of_eq_Some_iff)
  then show "p \<in> {(c, ds). c \<noteq> [] \<and> ds \<noteq> [] \<and> ds = club_distances shts c}"
    using c cd by (auto simp: map_of_clubMap split: if_splits)
next
  fix p assume "p \<in> {(c, ds). c \<noteq> [] \<and> ds \<noteq> [] \<and> ds = club_distances shts c}"
  then obtain c where c: "p = (c, club_distances shts c)" "c \<noteq> []" "club_distances shts c \<noteq> []"
    by auto
  then have "map_of (clubMap shts) c = Some (club_distances shts c)"
    by (simp add: map_of_clubMap)
  then show "p \<in> set (clubMap shts)" using c(1) by (simp add: map_of_SomeD)
qed

lemma clubMap_nonnull:
  "clubMap (filter (\<lambda>s. s_club s \<noteq> None \<and> s_distance_yards s \<noteq> None) shts) = clubMap shts"
proof -
  have "filter kept_shot (filter (\<lambda>s. s_club s \<noteq> None \<and> s_distance_yards s \<noteq> None) shts) =
        filter kept_shot shts"
    unfolding filter_filter by (rule filter_cong) (auto simp: kept_shot_def not_falsy_iff)
  then show ?thesis by (simp only: clubMap_as_group)
qed

lemma clubs_loadStats:
  assumes "allRounds (loadStats uid db) \<noteq> []"
  shows "clubs (loadStats uid db) = clubStats (sb_shots db)"
proof -
  have e: "clubStats [] = []" by (simp add: clubStats_def clubMap_def)
  have "clubStats (filter (\<lambda>s. s_club s \<noteq> None \<and> s_distance_yards s \<noteq> None) (sb_shots db)) =
        clubStats (sb_shots db)"
    by (simp only: clubStats_def clubMap_nonnull)
  then show ?thesis
    using assms e by (auto simp: loadStats_def Let_def)
qed

lemma sorted_uminus_desc:
  fixes ys :: "int list"
  shows "sorted (map uminus ys) \<longleftrightarrow> sorted_wrt (\<ge>) ys"
  by (simp add: sorted_map)

lemma club_of_clubStats:
  "map club (map (\<lambda>(c, dists).
       \<lparr> club = c,
         avgDistance = Math_round (js_div (Num (of_int (foldl (\<lambda>a b. a + b) 0 dists)))
                                          (of_nat (length dists))),
         count_shots = length dists \<rparr>) m) = map fst m"
  by (induction m) auto

text \<open>
  C6 (as stated in the specification): every shot with a non-positive distance is excluded.
  The guard of the code is \<^verbatim>\<open>!s.distance_yards\<close>, which a negative number passes: a
  single shot of \<open>-5\<close> yards with the 7 iron gives that club an average of \<open>-5\<close>.
\<close>

theorem C6_negative_distance_counterexample:
  "sb_shots db_negative_distance = [mk_shot ''7i'' (- 5)] \<and> (- 5 :: int) \<le> 0 \<and>
   clubs (loadStats ''u1'' db_negative_distance) =
     [\<lparr> club = ''7i'', avgDistance = Num (- 5), count_shots = 1 \<rparr>]"
  by code_simp

text \<open>
  C6 (amended): for a user with a completed round, the club list has exactly one entry for
  each club string (compared exactly, no normalisation) that has a kept shot; a shot is
  kept unless its club is missing or empty or its distance is missing or zero (a negative
  distance is kept). The entry's \<open>count\<close> is the number of kept shots of the club and its
  \<open>avgDistance\<close> is \<^verbatim>\<open>Math.round(sum / count)\<close> over their distances, which is
  \<open>round (sum / count)\<close>, halves up, for sums below \<open>2 ^ 52\<close> in magnitude. The list
  is sorted descending by \<open>avgDistance\<close>.
\<close>

theorem C6_club_distances:
  assumes r: "allRounds (loadStats uid db) \<noteq> []"
    and cl: "cl = clubs (loadStats uid db)" and shts: "shts = sb_shots db"
  shows "(\<forall>cs \<in> set cl.
            club cs \<noteq> [] \<and> club_distances shts (club cs) \<noteq> [] \<and>
            count_shots cs = length (club_distances shts (club cs)) \<and>
            avgDistance cs =
              Math_round (js_div (Num (of_int (sum_list (club_distances shts (club cs)))))
                                 (of_nat (count_shots cs))) \<and>
            (\<bar>sum_list (club_distances shts (club cs))\<bar> < 2 ^ 52 \<longrightarrow>
               avgDistance cs =
                 Num \<lfloor>of_int (sum_list (club_distances shts (club cs))) / of_nat (count_shots cs)
                       + 1 / (2::rat)\<rfloor>)) \<and>
         distinct (map club cl) \<and>
         set (map club cl) = {c. c \<noteq> [] \<and> club_distances shts c \<noteq> []} \<and>
         (\<exists>ds. map avgDistance cl = map Num ds \<and> sorted_wrt (\<ge>) ds)"
proof -
  define mk :: "string \<times> int list \<Rightarrow> ClubStat" where
    "mk = (\<lambda>(c, dists).
       \<lparr> club = c,
         avgDistance = Math_round (js_div (Num (of_int (foldl (\<lambda>a b. a + b) 0 dists)))
                                          (of_nat (length dists))),
         count_shots = length dists \<rparr>)"
  have cl': "cl = sort_key desc_avgDistance (map mk (clubMap shts))"
    unfolding cl shts clubs_loadStats [OF r] clubStats_def mk_def ..
  have mkc: "map club (map mk m) = map fst m" for m
    unfolding mk_def by (rule club_of_clubStats)
  have 1: "club cs \<noteq> [] \<and> club_distances shts (club cs) \<noteq> [] \<and>
            count_shots cs = length (club_distances shts (club cs)) \<and>
            avgDistance cs =
              Math_round (js_div (Num (of_int (sum_list (club_distances shts (club cs)))))
                                 (of_nat (count_shots cs))) \<and>
            (\<bar>sum_list (club_distances shts (club cs))\<bar> < 2 ^ 52 \<longrightarrow>
               avgDistance cs =
                 Num \<lfloor>of_int (sum_list (club_distances shts (club cs))) / of_nat (count_shots cs)
                       + 1 / (2::rat)\<rfloor>)"
    if "cs \<in> set cl" for cs
  proof -
    from that obtain c ds where p: "(c, ds) \<in> set (clubMap shts)" and cs: "cs = mk (c, ds)"
      unfolding cl' by auto
    have c: "c \<noteq> []" and ds: "ds \<noteq> []" "ds = club_distances shts c"
      using p unfolding set_clubMap by auto
    have f: "club cs = c" "count_shots cs = length ds"
      "avgDistance cs = Math_round (js_div (Num (of_int (sum_list ds))) (of_nat (length ds)))"
      unfolding cs mk_def by (simp_all add: foldl_plus_sum_list)
    have n: "0 < length ds" using ds(1) by simp
    have "\<bar>sum_list ds\<bar> < 2 ^ 52 \<longrightarrow>
          avgDistance cs = Num \<lfloor>of_int (sum_list ds) / of_nat (length ds) + 1 / (2::rat)\<rfloor>"
      unfolding f(3) using Math_round_js_div [OF _ n] by blast
    then show ?thesis using c ds f by simp
  qed
  have "mset (map club cl) = mset (map fst (clubMap shts))"
    unfolding cl' by (simp only: mset_map mset_sort flip: mkc)
  then have 2: "distinct (map club cl)"
    using distinct_clubMap [of shts] by (metis mset_eq_imp_distinct_iff)
  have "set (map club cl) = fst ` set (clubMap shts)"
    unfolding cl' using mkc [of "clubMap shts"] by (metis set_map set_sort)
  also have "\<dots> = {c. c \<noteq> [] \<and> club_distances shts c \<noteq> []}"
    unfolding set_clubMap by force
  finally have 3: "set (map club cl) = {c. c \<noteq> [] \<and> club_distances shts c \<noteq> []}" .
  define ds where "ds = map (\<lambda>c. - desc_avgDistance c) cl"
  have fin: "avgDistance c = Num (- desc_avgDistance c)" if "c \<in> set cl" for c
  proof -
    have "cl = clubStats shts" unfolding cl' clubStats_def mk_def ..
    then have "avgDistance c \<in> range Num" using that clubStats_finite [of shts] by auto
    then show ?thesis by (auto simp: desc_avgDistance_def)
  qed
  have a: "map avgDistance cl = map Num ds"
    unfolding ds_def map_map by (rule map_cong [OF refl]) (simp add: fin)
  have "sorted (map desc_avgDistance cl)"
    unfolding cl' by (rule sorted_sort_key)
  moreover have "map desc_avgDistance cl = map uminus ds"
    by (simp add: ds_def comp_def)
  ultimately have "sorted_wrt (\<ge>) ds" by (simp only: sorted_uminus_desc)
  then have 4: "\<exists>ds. map avgDistance cl = map Num ds \<and> sorted_wrt (\<ge>) ds"
    using a by blast
  show ?thesis using 1 2 3 4 by blast
qed

theorem C6_club_distances_witness:
  "allRounds (loadStats ''u1'' db_clubs) \<noteq> [] \<and>
   sb_shots db_clubs =
     [mk_shot ''7i'' 150, mk_shot ''7i'' 160, mk_shot ''Driver'' 0, mk_shot ''7I'' 140] \<and>
   clubs (loadStats ''u1'' db_clubs) =
     [\<lparr> club = ''7i'', avgDistance = Num 155, count_shots = 2 \<rparr>,
      \<lparr> club = ''7I'', avgDistance = Num 140, count_shots = 1 \<rparr>] \<and>
   club_distances (sb_shots db_clubs) ''7i'' = [150, 160] \<and>
   (\<exists>ds. map avgDistance (clubs (loadStats ''u1'' db_clubs)) = map Num ds \<and>
         sorted_wrt (\<ge>) ds) \<and>
   avgDistance \<lparr> club = ''7i'', avgDistance = Num 155, count_shots = 2 \<rparr> =
     Num \<lfloor>of_int (sum_list [150, 160]) / of_nat 2 + 1 / (2::rat)\<rfloor>"
proof -
  have r: "allRounds (loadStats ''u1'' db_clubs) \<noteq> []" by code_simp
  have s: "sb_shots db_clubs =
     [mk_shot ''7i'' 150, mk_shot ''7i'' 160, mk_shot ''Driver'' 0, mk_shot ''7I'' 140]"
    by code_simp
  have c: "clubs (loadStats ''u1'' db_clubs) =
     [\<lparr> club = ''7i'', avgDistance = Num 155, count_shots = 2 \<rparr>,
      \<lparr> club = ''7I'', avgDistance = Num 140, count_shots = 1 \<rparr>]" by code_simp
  have d: "club_distances (sb_shots db_clubs) ''7i'' = [150, 160]" by code_simp
  have b: "\<bar>sum_list [150, 160 :: int]\<bar> < 2 ^ 52" by simp
  have m: "\<lparr> club = ''7i'', avgDistance = Num 155, count_shots = 2 \<rparr>
             \<in> set (clubs (loadStats ''u1'' db_clubs))"
    unfolding c by simp
  note t = C6_club_distances [OF r refl refl]
  have t1: "\<exists>ds. map avgDistance (clubs (loadStats ''u1'' db_clubs)) = map Num ds \<and>
         sorted_wrt (\<ge>) ds"
    using t by blast
  have t2: "avgDistance \<lparr> club = ''7i'', avgDistance = Num 155, count_shots = 2 \<rparr> =
     Num \<lfloor>of_int (sum_list [150, 160]) / of_nat 2 + 1 / (2::rat)\<rfloor>"
    using t m b d by (metis (no_types, lifting) ClubStat.select_convs(1,3))
  show ?thesis using r s c d t1 t2 by blast
qed

section \<open>C7: the visibility filter\<close>

lemma in_partnerIds:
  "owner \<in> set (partnerIds uid db) \<longleftrightarrow>
     (\<exists>rel \<in> set (sb_relationships db). rel_status rel = Some ''accepted'' \<and>
        ((rel_user_id rel = uid \<and> rel_target_id rel = owner) \<or>
         (rel_user_id rel \<noteq> uid \<and> rel_user_id rel = owner \<and> rel_target_id rel = uid)))"
  unfolding partnerIds_def by (auto simp: image_iff)

text \<open>
  C7 (as stated in the specification): a round with visibility \<open>partners\<close> of another user
  is admitted if and only if the viewer follows the owner with an accepted relationship.
  The relationship query of the filter selects the accepted rows that name the viewer on
  either side: when \<open>A\<close> follows \<open>B\<close> and \<open>B\<close> does not follow \<open>A\<close>, the viewer \<open>B\<close> is shown
  the partners-only round of \<open>A\<close>.
\<close>

theorem C7_followed_viewer_counterexample:
  "r_user_id round_of_A = ''A'' \<and> r_visibility round_of_A = Some ''partners'' \<and>
   filter (\<lambda>rel. rel_user_id rel = ''B'' \<and> rel_target_id rel = ''A'')
          (sb_relationships db_A_follows_B) = [] \<and>
   isVisible ''B'' (partnerIds ''B'' db_A_follows_B) round_of_A \<and>
   map (\<lambda>e. r_id (fst e)) (loadFeed_v1 ''B'' db_A_follows_B) = [''r1'']"
  by code_simp

text \<open>
  C7 (amended): the visibility filter admits a round if and only if the round belongs to
  the viewer, or its visibility is \<open>public\<close>, or its visibility is \<open>partners\<close> and there is
  an accepted relationship row, of any type, between the viewer and the owner of the round
  in either direction. Mutual follow is not required, and no other condition grants
  visibility. The feed consists of the admitted rounds among the 50 most recent completed
  rounds.
\<close>

theorem C7_visibility:
  "(isVisible uid (partnerIds uid db) r \<longleftrightarrow>
      r_user_id r = uid \<or> r_visibility r = Some ''public'' \<or>
      (r_visibility r = Some ''partners'' \<and>
       (\<exists>rel \<in> set (sb_relationships db). rel_status rel = Some ''accepted'' \<and>
          ((rel_user_id rel = uid \<and> rel_target_id rel = r_user_id r) \<or>
           (rel_user_id rel = r_user_id r \<and> rel_target_id rel = uid))))) \<and>
   map fst (loadFeed_v1 uid db) =
     filter (isVisible uid (partnerIds uid db))
       (take 50 (order_desc r_date_played
          (filter (\<lambda>r. r_is_complete r = Some True) (sb_rounds db))))"
proof
  show "isVisible uid (partnerIds uid db) r \<longleftrightarrow>
      r_user_id r = uid \<or> r_visibility r = Some ''public'' \<or>
      (r_visibility r = Some ''partners'' \<and>
       (\<exists>rel \<in> set (sb_relationships db). rel_status rel = Some ''accepted'' \<and>
          ((rel_user_id rel = uid \<and> rel_target_id rel = r_user_id r) \<or>
           (rel_user_id rel = r_user_id r \<and> rel_target_id rel = uid))))"
    unfolding isVisible_def in_partnerIds by auto
  show "map fst (loadFeed_v1 uid db) =
     filter (isVisible uid (partnerIds uid db))
       (take 50 (order_desc r_date_played
          (filter (\<lambda>r. r_is_complete r = Some True) (sb_rounds db))))"
    by (simp add: loadFeed_v1_def Let_def comp_def)
qed

theorem C7_visibility_witness:
  "r_user_id round_of_A \<noteq> ''B'' \<and> r_visibility round_of_A = Some ''partners'' \<and>
   filter (\<lambda>rel. rel_user_id rel = ''A'' \<and> rel_target_id rel = ''B'')
          (sb_relationships db_B_follows_A) = [] \<and>
   isVisible ''B'' (partnerIds ''B'' db_B_follows_A) round_of_A \<and>
   \<not> isVisible ''C'' (partnerIds ''C'' db_B_follows_A) round_of_A"
proof -
  have a: "r_user_id round_of_A \<noteq> ''B''" "r_visibility round_of_A = Some ''partners''"
    "r_user_id round_of_A \<noteq> ''C''" "r_visibility round_of_A \<noteq> Some ''public''"
    by code_simp+
  have b: "filter (\<lambda>rel. rel_user_id rel = ''A'' \<and> rel_target_id rel = ''B'')
          (sb_relationships db_B_follows_A) = []" by code_simp
  have c: "\<exists>rel \<in> set (sb_relationships db_B_follows_A). rel_status rel = Some ''accepted'' \<and>
          ((rel_user_id rel = ''B'' \<and> rel_target_id rel = r_user_id round_of_A) \<or>
           (rel_user_id rel = r_user_id round_of_A \<and> rel_target_id rel = ''B''))"
    by code_simp
  have d: "\<not> (\<exists>rel \<in> set (sb_relationships db_B_follows_A). rel_status rel = Some ''accepted'' \<and>
          ((rel_user_id rel = ''C'' \<and> rel_target_id rel = r_user_id round_of_A) \<or>
           (rel_user_id rel = r_user_id round_of_A \<and> rel_target_id rel = ''C'')))"
    by code_simp
  show ?thesis
    using a b c d C7_visibility [of "''B''" db_B_follows_A round_of_A]
      C7_visibility [of "''C''" db_B_follows_A round_of_A]
    by blast
qed

section \<open>C8: the total of a round after an edit\<close>

lemma apply_edit_keys [simp]:
  "h_id (apply_edit e h) = h_id h" "h_round_id (apply_edit e h) = h_round_id h"
  by (cases e; simp)+

lemma map_list_update_same:
  assumes "i < length xs" "f y = f (xs ! i)"
  shows "map f (xs[i := y]) = map f xs"
  using assms by (simp add: map_update list_update_same_conv)

lemma updateEditScore_keeps:
  assumes "updateEditScore idx e st = Some st'"
  shows "map h_id (editScores st') = map h_id (editScores st) \<and>
         rounds_feed st' = rounds_feed st \<and> expandedId st' = expandedId st \<and>
         editing st' = editing st \<and> holeScores st' = holeScores st"
  using assms
  by (auto simp: updateEditScore_def Let_def map_list_update_same split: if_splits)

text \<open>
  The rows a card shows are those of its round, and so are the rows being edited: the
  identifiers of \<open>holeScores\<close> and \<open>editScores\<close> are the ones the database holds for the
  round, in the order of the holes. A save changes no identifier, round or hole number.
\<close>

lemma fetch_ids_keys:
  "map h_id (fetch_holeScores rid db) =
   map fst (sort_key (\<lambda>k. snd (snd k)) (filter (\<lambda>k. fst (snd k) = rid)
     (map (\<lambda>h. (h_id h, h_round_id h, h_hole_number h)) (sb_hole_scores db))))"
  by (simp add: fetch_holeScores_def order_asc_def filter_map sort_key_map comp_def)

lemma update_hole_score_keys:
  "map (\<lambda>h. (h_id h, h_round_id h, h_hole_number h)) (update_hole_score hole tbl) =
   map (\<lambda>h. (h_id h, h_round_id h, h_hole_number h)) tbl"
  by (simp add: update_hole_score_def comp_def)

lemma foldl_update_hole_score_keys:
  "map (\<lambda>h. (h_id h, h_round_id h, h_hole_number h))
     (foldl (\<lambda>t hole. update_hole_score hole t) tbl es) =
   map (\<lambda>h. (h_id h, h_round_id h, h_hole_number h)) tbl"
  by (induction es arbitrary: tbl) (simp_all add: update_hole_score_keys)

lemma fetch_ids_saveEdits:
  "map h_id (fetch_holeScores rid (fst (saveEdits roundId db st))) =
   map h_id (fetch_holeScores rid db)"
  unfolding fetch_ids_keys by (simp add: saveEdits_def Let_def foldl_update_hole_score_keys)

lemma reachable_rows:
  assumes "reachable uid db st"
  shows "(\<forall>rid. expandedId st = Some rid \<longrightarrow>
            map h_id (holeScores st) = map h_id (fetch_holeScores rid db)) \<and>
         (editing st \<longrightarrow> expandedId st \<noteq> None \<and>
            map h_id (editScores st) = map h_id (holeScores st))"
  using assms
proof (induction rule: reachable.induct)
  case (mounted db)
  show ?case by (simp add: feed_initial_def)
next
  case (refreshed db st)
  then show ?case by (simp add: onRefresh_def)
next
  case (toggled db st roundId)
  then show ?case by (simp add: toggleExpand_def)
next
  case (started db st roundId)
  then show ?case by (simp add: startEdit_def)
next
  case (cancelled db st roundId)
  then show ?case by (simp add: cancelEdit_def)
next
  case (typed db st idx e st')
  then show ?case using updateEditScore_keeps [of idx e st st'] by simp
next
  case (saved db st roundId db' st')
  have db': "db' = fst (saveEdits roundId db st)" using saved.hyps by simp
  have st': "expandedId st' = expandedId st" "holeScores st' = editScores st" "\<not> editing st'"
    using saved.hyps by (auto simp: saveEdits_def Let_def)
  show ?case
    using saved.IH saved.hyps(2,4) st' unfolding db' fetch_ids_saveEdits by simp
next
  case (deleted db st roundId db' st')
  have "expandedId st' = None" "editing st' = editing st"
    using deleted.hyps by (auto simp: deleteRound_def)
  then show ?case using deleted.hyps by simp
qed

lemma apply_edits_keeps:
  "apply_edits edits st = Some st' \<Longrightarrow>
   rounds_feed st' = rounds_feed st \<and> expandedId st' = expandedId st \<and>
   editing st' = editing st"
proof (induction edits arbitrary: st)
  case Nil
  then show ?case by simp
next
  case (Cons p edits)
  obtain idx e where p: "p = (idx, e)" by (cases p)
  from Cons.prems obtain st1 where
    1: "updateEditScore idx e st = Some st1" and 2: "apply_edits edits st1 = Some st'"
    unfolding p by (auto split: option.splits)
  show ?case using Cons.IH [OF 2] updateEditScore_keeps [OF 1] by simp
qed

lemma apply_edits_reachable:
  "reachable uid db st \<Longrightarrow> editing st \<Longrightarrow> apply_edits edits st = Some st' \<Longrightarrow>
   reachable uid db st'"
proof (induction edits arbitrary: st)
  case Nil
  then show ?case by simp
next
  case (Cons p edits)
  obtain idx e where p: "p = (idx, e)" by (cases p)
  from Cons.prems(3) obtain st1 where
    1: "updateEditScore idx e st = Some st1" and 2: "apply_edits edits st1 = Some st'"
    unfolding p by (auto split: option.splits)
  have r: "reachable uid db st1" using Cons.prems(1,2) 1 by (rule typed)
  have e: "editing st1" using updateEditScore_keeps [OF 1] Cons.prems(2) by simp
  show ?case using r e 2 by (rule Cons.IH)
qed

text \<open>An edit session leads to a state the user can reach, with the edit rows drawn.\<close>

lemma edit_session_reachable:
  assumes r: "reachable uid db st" and s: "edit_session uid roundId edits db st = Some st1"
  shows "reachable uid db st1 \<and> editing st1 \<and> expandedId st1 = Some roundId \<and>
         isOwn uid roundId st1"
proof -
  define sa where "sa = toggleExpand roundId db st"
  from s have m: "roundId \<in> fr_id ` set (rounds_feed st)"
    and x: "expandedId sa = Some roundId" and o: "isOwn uid roundId sa"
    and a: "apply_edits edits (startEdit sa) = Some st1"
    by (auto simp: edit_session_def Let_def sa_def split: if_splits)
  have ra: "reachable uid db sa" unfolding sa_def using r m by (rule toggled)
  have na: "\<not> editing sa"
    unfolding sa_def by (simp add: toggleExpand_def)
  have rb: "reachable uid db (startEdit sa)" using ra x o na by (rule started)
  have eb: "editing (startEdit sa)" "expandedId (startEdit sa) = Some roundId"
    "rounds_feed (startEdit sa) = rounds_feed sa"
    using x by (simp_all add: startEdit_def)
  have 1: "reachable uid db st1" using rb eb(1) a by (rule apply_edits_reachable)
  have 2: "editing st1" "expandedId st1 = Some roundId" "rounds_feed st1 = rounds_feed sa"
    using apply_edits_keeps [OF a] eb by simp_all
  have 3: "isOwn uid roundId st1" using o 2(3) by (simp add: isOwn_def)
  show ?thesis using 1 2 3 by simp
qed

lemma written_row_keys [simp]:
  "h_id (written_row e h) = h_id h" "h_round_id (written_row e h) = h_round_id h"
  "h_score (written_row e h) = h_score e"
  by (simp_all add: written_row_def)

lemma row_after_keys [simp]:
  "h_id (row_after es h) = h_id h" "h_round_id (row_after es h) = h_round_id h"
  by (simp_all add: row_after_def split: option.splits)

text \<open>
  Writing accepted holes with distinct identifiers row by row writes each table row at
  most once.
\<close>

lemma foldl_update_hole_score:
  "distinct (map h_id es) \<Longrightarrow> \<forall>e \<in> set es. accepted e \<Longrightarrow>
   foldl (\<lambda>t hole. update_hole_score hole t) tbl es = map (row_after es) tbl"
proof (induction es arbitrary: tbl)
  case Nil
  then show ?case by (simp add: row_after_def)
next
  case (Cons e es)
  have d: "distinct (map h_id es)" and n: "h_id e \<notin> h_id ` set es" using Cons.prems by auto
  have acc: "\<forall>e \<in> set es. accepted e" and ae: "accepted e" using Cons.prems by auto
  have none: "find (\<lambda>x. h_id x = h_id e) es = None"
    using n by (force simp: find_None_iff image_iff)
  have u: "update_hole_score e tbl =
           map (\<lambda>h. if h_id h = h_id e
                     then h\<lparr>h_score := h_score e, h_putts := h_putts e,
                             h_fairway_hit := h_fairway_hit e, h_gir := h_gir e\<rparr>
                     else h) tbl"
    using ae by (simp add: update_hole_score_def accepted_def)
  have "foldl (\<lambda>t hole. update_hole_score hole t) tbl (e # es) =
        map (row_after es) (update_hole_score e tbl)"
    using Cons.IH [OF d acc] by simp
  also have "\<dots> = map (row_after (e # es)) tbl"
    unfolding u map_map
  proof (rule map_cong [OF refl])
    fix h
    show "(row_after es \<circ>
           (\<lambda>h. if h_id h = h_id e
                 then h\<lparr>h_score := h_score e, h_putts := h_putts e,
                         h_fairway_hit := h_fairway_hit e, h_gir := h_gir e\<rparr>
                 else h)) h = row_after (e # es) h"
    proof (cases "h_id h = h_id e")
      case True
      then show ?thesis
        using none by (simp add: row_after_def written_row_def)
    next
      case False
      then have "h_id e \<noteq> h_id h" by simp
      then show ?thesis using False by (simp add: row_after_def)
    qed
  qed
  finally show ?case .
qed

lemma find_distinct_id:
  assumes "distinct (map h_id es)" "e \<in> set es"
  shows "find (\<lambda>x. h_id x = h_id e) es = Some e"
  using assms
proof (induction es)
  case Nil
  then show ?case by simp
next
  case (Cons a es)
  then show ?case by (cases "a = e") (auto simp: image_iff)
qed

lemma distinct_fetched:
  assumes "distinct (map h_id (sb_hole_scores db))"
  shows "distinct (map h_id (fetch_holeScores roundId db))"
proof -
  have "mset (map h_id (fetch_holeScores roundId db)) =
        mset (map h_id (filter (\<lambda>h. h_round_id h = roundId) (sb_hole_scores db)))"
    by (simp add: order_asc_def fetch_holeScores_def)
  moreover have "distinct (map h_id (filter (\<lambda>h. h_round_id h = roundId) (sb_hole_scores db)))"
    using assms by (rule distinct_map_filter)
  ultimately show ?thesis by (metis mset_eq_imp_distinct_iff)
qed

text \<open>After the edited holes of a round are saved, the rows of the round sum to their scores.\<close>

lemma round_sum_after_save:
  assumes d: "distinct (map h_id (sb_hole_scores db))"
    and ids: "map h_id (editScores st) = map h_id (fetch_holeScores roundId db)"
    and acc: "\<forall>e \<in> set (editScores st). accepted e"
  shows "round_score_sum roundId (fst (saveEdits roundId db st)) = newTotal (editScores st)"
proof -
  define es where "es = editScores st"
  define T where "T = sb_hole_scores db"
  define R where "R = filter (\<lambda>h. h_round_id h = roundId) T"
  define g where "g = (\<lambda>i. case find (\<lambda>e. h_id e = i) es of
                              Some e \<Rightarrow> or0 (h_score e) | None \<Rightarrow> 0)"
  have de: "distinct (map h_id es)"
    unfolding es_def ids using d by (rule distinct_fetched)
  have ms: "mset (map h_id R) = mset (map h_id es)"
    unfolding es_def ids by (simp add: order_asc_def fetch_holeScores_def R_def T_def)
  have T': "sb_hole_scores (fst (saveEdits roundId db st)) = map (row_after es) T"
    using foldl_update_hole_score [OF de, of T] acc
    by (simp add: saveEdits_def Let_def T_def es_def)
  have "filter (\<lambda>h. h_round_id h = roundId) (map (row_after es) T) = map (row_after es) R"
    unfolding R_def by (simp add: filter_map comp_def)
  then have "round_score_sum roundId (fst (saveEdits roundId db st)) =
             sum_list (map (\<lambda>h. or0 (h_score (row_after es h))) R)"
    by (simp add: round_score_sum_def T' comp_def)
  also have "\<dots> = sum_list (map (\<lambda>h. g (h_id h)) R)"
  proof (rule arg_cong [where f = sum_list], rule map_cong [OF refl])
    fix h assume "h \<in> set R"
    then have "h_id h \<in> set (map h_id R)" by simp
    then have "h_id h \<in> set (map h_id es)" using ms by (metis set_mset_mset)
    then obtain e where e: "e \<in> set es" "h_id e = h_id h" by auto
    have "find (\<lambda>x. h_id x = h_id h) es = Some e"
      using find_distinct_id [OF de e(1)] e(2) by simp
    then show "or0 (h_score (row_after es h)) = g (h_id h)"
      by (simp add: row_after_def g_def)
  qed
  also have "\<dots> = sum_list (map g (map h_id R))" by (simp add: comp_def)
  also have "\<dots> = sum_list (map g (map h_id es))"
    using ms by (rule mset_eq_sum_list_map)
  also have "\<dots> = sum_list (map (\<lambda>e. g (h_id e)) es)" by (simp add: comp_def)
  also have "\<dots> = sum_list (map (\<lambda>h. or0 (h_score h)) es)"
  proof (rule arg_cong [where f = sum_list], rule map_cong [OF refl])
    fix e assume "e \<in> set es"
    then show "g (h_id e) = or0 (h_score e)"
      using find_distinct_id [OF de] by (simp add: g_def)
  qed
  finally show ?thesis by (simp add: newTotal_def foldl_add_sum_list es_def)
qed

lemma row_after_idem:
  "row_after es (row_after es h) = row_after es h"
  by (simp add: row_after_def written_row_def split: option.splits)

lemma saveEdits_again:
  assumes de: "distinct (map h_id (editScores st))"
    and acc: "\<forall>e \<in> set (editScores st). accepted e"
    and sv: "saveEdits roundId db st = (db', st')"
  shows "saveEdits roundId db' st' = (db', st')"
proof -
  define es where "es = editScores st"
  define n where "n = newTotal es"
  have f: "foldl (\<lambda>t hole. update_hole_score hole t) tbl es = map (row_after es) tbl" for tbl
    using de acc unfolding es_def by (rule foldl_update_hole_score)
  have db': "db' = db\<lparr>sb_hole_scores := map (row_after es) (sb_hole_scores db),
                     sb_rounds := update_total_score roundId n (sb_rounds db)\<rparr>"
    and st': "st' = st\<lparr>holeScores := es, editing := False,
                rounds_feed := map (\<lambda>r. if fr_id r = roundId
                                         then r\<lparr>fr_total_score := Some n\<rparr> else r)
                                   (rounds_feed st)\<rparr>"
    using sv by (simp_all add: saveEdits_def Let_def f es_def [symmetric] n_def [symmetric])
  have e': "editScores st' = es" by (simp add: st' es_def)
  have u: "update_total_score roundId n (update_total_score roundId n tbl) =
           update_total_score roundId n tbl" for tbl
    by (simp add: update_total_score_def comp_def)
  have m: "map (\<lambda>r. if fr_id r = roundId then r\<lparr>fr_total_score := Some n\<rparr> else r)
             (map (\<lambda>r. if fr_id r = roundId then r\<lparr>fr_total_score := Some n\<rparr> else r) xs) =
           map (\<lambda>r. if fr_id r = roundId then r\<lparr>fr_total_score := Some n\<rparr> else r) xs" for xs
    by (simp add: comp_def)
  have "saveEdits roundId db' st' =
        (db'\<lparr>sb_hole_scores := map (row_after es) (sb_hole_scores db'),
             sb_rounds := update_total_score roundId n (sb_rounds db')\<rparr>,
         st'\<lparr>holeScores := es, editing := False,
             rounds_feed := map (\<lambda>r. if fr_id r = roundId
                                      then r\<lparr>fr_total_score := Some n\<rparr> else r)
                                (rounds_feed st')\<rparr>)"
    by (simp add: saveEdits_def Let_def e' f n_def [symmetric])
  also have "\<dots> = (db', st')"
    unfolding db' st' by (simp add: row_after_idem comp_def u m)
  finally show ?thesis .
qed

lemma loadFeed_entry_round:
  assumes "e \<in> set (loadFeed uid db)"
  shows "\<exists>r \<in> set (sb_rounds db). fr_id e = r_id r \<and> fr_total_score e = r_total_score r"
proof -
  from assms obtain r where r: "r \<in> set (feed_roundsData uid db)"
    and e: "fr_id e = r_id r" "fr_total_score e = r_total_score r"
    unfolding loadFeed_def Let_def by auto
  have "r \<in> set (sb_rounds db)"
    using r unfolding feed_roundsData_def Let_def order_desc_def
    by (auto dest: in_set_takeD)
  then show ?thesis using e by blast
qed

text \<open>A second render works on the sorted selection and computes the same.\<close>

lemma render_totals_again:
  "fst (render_totals (snd (render_totals ls))) = fst (render_totals ls) \<and>
   snd (render_totals (snd (render_totals ls))) = snd (render_totals ls)"
proof (cases "holeSelection ls")
  case custom
  define ls' where "ls' = ls\<lparr>selectedHoles := sort (selectedHoles ls)\<rparr>"
  have a: "activeHoleNumbers ls = (sort (selectedHoles ls), ls')"
    using custom by (simp add: activeHoleNumbers_def ls'_def)
  have b: "activeHoleNumbers ls' = (sort (selectedHoles ls), ls')"
    using custom by (simp add: activeHoleNumbers_def ls'_def sorted_sort_id)
  have h: "holeEntries ls' = holeEntries ls" by (simp add: ls'_def)
  show ?thesis
    by (simp add: render_totals_def totalScore_def totalPutts_def activeIndices_def a b h)
qed (simp_all add: render_totals_def totalScore_def totalPutts_def activeIndices_def
      activeHoleNumbers_def)

lemma render_totals_state:
  "(snd (render_totals ls))\<lparr>selectedHoles := selectedHoles ls\<rparr> = ls \<and>
   mset (selectedHoles (snd (render_totals ls))) = mset (selectedHoles ls)"
  by (cases "holeSelection ls") (simp_all add: render_totals_def activeHoleNumbers_def)

text \<open>
  C8 (as stated in the specification): after any score edit the stored total is the sum of
  the hole scores of the round, and the aggregation does not change its input. The total
  column is a 32-bit integer and \<^verbatim>\<open>saveEdits\<close> reads no result of its writes: with the
  score \<open>2147483647\<close> typed for the first hole of a round of three fours, the hole is
  written, the total \<open>2147483655\<close> is refused, the stored total stays \<open>12\<close> and the feed
  shows \<open>2147483655\<close>. And a render of the log-round form with the custom selection
  \<open>3, 1, 2\<close> sorts that state array in place while it computes the totals.
\<close>

theorem C8_stale_total_counterexample:
  "map_option
     (\<lambda>(db', st'). (map h_score (filter (\<lambda>h. h_round_id h = ''r1'') (sb_hole_scores db')),
                     round_score_sum ''r1'' db',
                     map r_total_score (filter (\<lambda>r. r_id r = ''r1'') (sb_rounds db')),
                     map fr_total_score (filter (\<lambda>e. fr_id e = ''r1'') (rounds_feed st'))))
     (edit_round ''u1'' ''r1'' [(0, Edit_score 2147483647)] db_edit
        (feed_initial ''u1'' db_edit)) =
   Some ([Some 4, Some 2147483647, Some 4], 2147483655, [Some 12], [Some 2147483655]) \<and>
   selectedHoles log_example = [3, 1, 2] \<and>
   selectedHoles (snd (render_totals log_example)) = [1, 2, 3]"
  by code_simp

text \<open>
  C8 (amended): after a score edit whose writes the database accepts (the score and putts
  of every edited hole and the new total are within the range of a 32-bit integer), the
  stored total of the round is the sum of all hole scores the table holds for that round
  (a null score counting 0); it is the total the feed displays after the save and after a
  reload. The save leaves the edited rows it was given as they are, and saving them again
  changes nothing. Running an aggregation again gives the same output: a reload of the
  feed gives the same feed, and a second render of the log-round form gives the same
  totals and leaves the state as the first render left it; a render changes nothing of
  the form's state but the order of the selected holes. The edit is any one the user can
  make: Save is pressed in any state the screen can be brought into. Hole identifiers are
  the primary key of their table.
\<close>

theorem C8_total_after_edit:
  assumes d: "distinct (map h_id (sb_hole_scores db))"
    and r: "reachable uid db st1"
    and ed: "editing st1" and ex: "expandedId st1 = Some roundId"
    and acc: "\<forall>h \<in> set (editScores st1). accepted h"
    and tot: "int4 (newTotal (editScores st1))"
    and sv: "saveEdits roundId db st1 = (db', st')"
  shows "(\<forall>r \<in> set (sb_rounds db'). r_id r = roundId \<longrightarrow>
            r_total_score r = Some (round_score_sum roundId db')) \<and>
         (\<forall>e \<in> set (rounds_feed st'). fr_id e = roundId \<longrightarrow>
            fr_total_score e = Some (round_score_sum roundId db')) \<and>
         (\<forall>e \<in> set (loadFeed uid db'). fr_id e = roundId \<longrightarrow>
            fr_total_score e = Some (round_score_sum roundId db')) \<and>
         round_score_sum roundId db' = newTotal (editScores st1) \<and>
         editScores st' = editScores st1 \<and> holeScores st' = editScores st1 \<and>
         saveEdits roundId db' st' = (db', st') \<and>
         onRefresh uid db' (onRefresh uid db' st') = onRefresh uid db' st' \<and>
         fst (render_totals (snd (render_totals ls))) = fst (render_totals ls) \<and>
         snd (render_totals (snd (render_totals ls))) = snd (render_totals ls) \<and>
         (snd (render_totals ls))\<lparr>selectedHoles := selectedHoles ls\<rparr> = ls \<and>
         mset (selectedHoles (snd (render_totals ls))) = mset (selectedHoles ls)"
proof -
  define n where "n = newTotal (editScores st1)"
  have ids: "map h_id (editScores st1) = map h_id (fetch_holeScores roundId db)"
    using reachable_rows [OF r] ed ex by simp
  have de: "distinct (map h_id (editScores st1))"
    unfolding ids using d by (rule distinct_fetched)
  have sum: "round_score_sum roundId db' = n"
    using round_sum_after_save [OF d ids acc] sv by (simp add: n_def)
  have rs: "sb_rounds db' =
            map (\<lambda>r. if r_id r = roundId then r\<lparr>r_total_score := Some n\<rparr> else r) (sb_rounds db)"
    using sv tot by (auto simp: saveEdits_def Let_def update_total_score_def n_def)
  have fs: "rounds_feed st' =
            map (\<lambda>r. if fr_id r = roundId then r\<lparr>fr_total_score := Some n\<rparr> else r)
                (rounds_feed st1)"
    using sv by (auto simp: saveEdits_def Let_def n_def)
  have 1: "\<forall>r \<in> set (sb_rounds db'). r_id r = roundId \<longrightarrow>
            r_total_score r = Some (round_score_sum roundId db')"
  proof (intro ballI impI)
    fix r assume r: "r \<in> set (sb_rounds db')" "r_id r = roundId"
    from r(1) obtain r0 where r0: "r0 \<in> set (sb_rounds db)"
      "r = (if r_id r0 = roundId then r0\<lparr>r_total_score := Some n\<rparr> else r0)"
      unfolding rs set_map by blast
    have "r_id r0 = roundId" using r(2) r0(2) by (simp split: if_splits)
    then have "r_total_score r = Some n" using r0(2) by simp
    then show "r_total_score r = Some (round_score_sum roundId db')"
      by (simp only: sum)
  qed
  have 2: "\<forall>e \<in> set (rounds_feed st'). fr_id e = roundId \<longrightarrow>
            fr_total_score e = Some (round_score_sum roundId db')"
  proof (intro ballI impI)
    fix e assume e: "e \<in> set (rounds_feed st')" "fr_id e = roundId"
    from e(1) obtain e0 where e0: "e0 \<in> set (rounds_feed st1)"
      "e = (if fr_id e0 = roundId then e0\<lparr>fr_total_score := Some n\<rparr> else e0)"
      unfolding fs set_map by blast
    have "fr_id e0 = roundId" using e(2) e0(2) by (simp split: if_splits)
    then have "fr_total_score e = Some n" using e0(2) by simp
    then show "fr_total_score e = Some (round_score_sum roundId db')"
      by (simp only: sum)
  qed
  have 3: "\<forall>e \<in> set (loadFeed uid db'). fr_id e = roundId \<longrightarrow>
            fr_total_score e = Some (round_score_sum roundId db')"
  proof (intro ballI impI)
    fix e assume "e \<in> set (loadFeed uid db')" and i: "fr_id e = roundId"
    then obtain r where "r \<in> set (sb_rounds db')" "fr_id e = r_id r"
      "fr_total_score e = r_total_score r"
      using loadFeed_entry_round by blast
    then show "fr_total_score e = Some (round_score_sum roundId db')"
      using 1 i by simp
  qed
  have 4: "round_score_sum roundId db' = newTotal (editScores st1)"
    using sum by (simp only: n_def)
  have 5: "editScores st' = editScores st1" "holeScores st' = editScores st1"
    using sv by (auto simp: saveEdits_def Let_def)
  have 6: "saveEdits roundId db' st' = (db', st')"
    using de acc sv by (rule saveEdits_again)
  have 7: "onRefresh uid db' (onRefresh uid db' st') = onRefresh uid db' st'"
    by (simp add: onRefresh_def)
  show ?thesis
    using render_totals_again [of ls] render_totals_state [of ls]
    by (intro conjI 1 2 3 4 5 6 7) simp_all
qed

theorem C8_total_after_edit_witness:
  "distinct (map h_id (sb_hole_scores db_edit)) \<and>
   (case edit_session ''u1'' ''r1'' [(0, Edit_score 5), (2, Edit_score 6)] db_edit
           (feed_initial ''u1'' db_edit) of
      None \<Rightarrow> False
    | Some st1 \<Rightarrow>
        map h_id (editScores st1) = [''h1'', ''h2'', ''h3''] \<and>
        map h_score (editScores st1) = [Some 5, Some 4, Some 6] \<and>
        (\<forall>h \<in> set (editScores st1). accepted h) \<and>
        int4 (newTotal (editScores st1)) \<and>
        map r_total_score (sb_rounds (fst (saveEdits ''r1'' db_edit st1))) = [Some 15, Some 5] \<and>
        round_score_sum ''r1'' (fst (saveEdits ''r1'' db_edit st1)) = 15 \<and>
        (\<forall>r \<in> set (sb_rounds (fst (saveEdits ''r1'' db_edit st1))). r_id r = ''r1'' \<longrightarrow>
           r_total_score r =
             Some (round_score_sum ''r1'' (fst (saveEdits ''r1'' db_edit st1)))) \<and>
        editScores (snd (saveEdits ''r1'' db_edit st1)) = editScores st1)"
proof -
  have d: "distinct (map h_id (sb_hole_scores db_edit))" by code_simp
  have "case edit_session ''u1'' ''r1'' [(0, Edit_score 5), (2, Edit_score 6)] db_edit
           (feed_initial ''u1'' db_edit) of
      None \<Rightarrow> False
    | Some st1 \<Rightarrow>
        map h_id (editScores st1) = [''h1'', ''h2'', ''h3''] \<and>
        map h_score (editScores st1) = [Some 5, Some 4, Some 6] \<and>
        list_all accepted (editScores st1) \<and>
        int4 (newTotal (editScores st1)) \<and>
        map r_total_score (sb_rounds (fst (saveEdits ''r1'' db_edit st1))) = [Some 15, Some 5] \<and>
        round_score_sum ''r1'' (fst (saveEdits ''r1'' db_edit st1)) = 15"
    by code_simp
  then obtain st1 where
    s: "edit_session ''u1'' ''r1'' [(0, Edit_score 5), (2, Edit_score 6)] db_edit
           (feed_initial ''u1'' db_edit) = Some st1"
    and v: "map h_id (editScores st1) = [''h1'', ''h2'', ''h3'']"
      "map h_score (editScores st1) = [Some 5, Some 4, Some 6]"
      "map r_total_score (sb_rounds (fst (saveEdits ''r1'' db_edit st1))) = [Some 15, Some 5]"
      "round_score_sum ''r1'' (fst (saveEdits ''r1'' db_edit st1)) = 15"
    and acc: "\<forall>h \<in> set (editScores st1). accepted h"
    and tot: "int4 (newTotal (editScores st1))"
    by (auto simp: list_all_iff split: option.splits)
  obtain db' st' where sv: "saveEdits ''r1'' db_edit st1 = (db', st')"
    by (cases "saveEdits ''r1'' db_edit st1")
  have r: "reachable ''u1'' db_edit st1 \<and> editing st1 \<and> expandedId st1 = Some ''r1'' \<and>
           isOwn ''u1'' ''r1'' st1"
    using mounted s by (rule edit_session_reachable)
  note t = C8_total_after_edit [OF d r [THEN conjunct1] r [THEN conjunct2, THEN conjunct1]
      r [THEN conjunct2, THEN conjunct2, THEN conjunct1] acc tot sv]
  have a: "\<forall>r \<in> set (sb_rounds db'). r_id r = ''r1'' \<longrightarrow>
           r_total_score r = Some (round_score_sum ''r1'' db')"
    by (rule t [THEN conjunct1])
  have b: "editScores st' = editScores st1"
    by (rule t [THEN conjunct2, THEN conjunct2, THEN conjunct2, THEN conjunct2, THEN conjunct1])
  show ?thesis
    using d s v acc tot a b by (simp add: sv)
qed

text \<open>
  At creation the total of a round is the sum of the scores of the hole rows written with
  it, when all of them are written.
\<close>

lemma scoreInsert_score:
  "scoreInsert st roundId i = Inr row \<Longrightarrow>
   (case js_index (holeEntries st) i of Some e \<Rightarrow> score e | None \<Rightarrow> 0) = i_score row"
  unfolding scoreInsert_def by (auto split: option.splits)

lemma scoreInserts_total:
  "scoreInserts st roundId idxs = Inr rows \<Longrightarrow>
   foldl (\<lambda>s i. s + (case js_index (holeEntries st) i of Some e \<Rightarrow> score e | None \<Rightarrow> 0))
         a idxs = a + sum_list (map i_score rows)"
proof (induction idxs arbitrary: rows a)
  case Nil
  then show ?case by simp
next
  case (Cons i rest)
  from Cons.prems obtain row rows' where
    r: "scoreInsert st roundId i = Inr row" and
    rs: "scoreInserts st roundId rest = Inr rows'" and
    e: "rows = row # rows'"
    by (auto split: sum.splits)
  show ?case
    unfolding e using scoreInsert_score [OF r] Cons.IH [OF rs] by simp
qed

lemma saveRound_total:
  assumes "the_scores (saveRound uid courseId roundId st) = Inr rows"
  shows "r_total_score (the_round (saveRound uid courseId roundId st)) =
         Some (sum_list (map i_score rows))"
  using assms scoreInserts_total [of st roundId "activeIndices st" rows 0]
  by (simp add: saveRound_def totalScore_def)

section \<open>C9: the feed and the visibility of a round\<close>

text \<open>Changing visibility values changes the rounds the feed query returns in that column only.\<close>

lemma feed_roundsData_visibility:
  "feed_roundsData uid (db\<lparr>sb_rounds := map (\<lambda>r. r\<lparr>r_visibility := v r\<rparr>) (sb_rounds db)\<rparr>) =
   map (\<lambda>r. r\<lparr>r_visibility := v r\<rparr>) (feed_roundsData uid db)"
  by (simp add: feed_roundsData_def followingIds_def order_desc_def Let_def filter_map comp_def
      sort_key_map take_map)

lemma map_fr_id_loadFeed: "map fr_id (loadFeed uid db) = map r_id (feed_roundsData uid db)"
  by (simp add: loadFeed_def Let_def comp_def)

text \<open>
  The first \<open>n\<close> elements of a list sorted by a key: an element is among them when at most
  \<open>n\<close> elements have a key up to its own, and is not when \<open>n\<close> or more have a smaller key.
\<close>

lemma sorted_prefix_count:
  assumes s: "sorted (map k xs)" and i: "i < length xs"
  shows "i < length (filter (\<lambda>y. k y \<le> k (xs ! i)) xs)"
proof -
  have all: "\<forall>y \<in> set (take (Suc i) xs). k y \<le> k (xs ! i)"
  proof
    fix y assume "y \<in> set (take (Suc i) xs)"
    then obtain j where j: "j < length (take (Suc i) xs)" "take (Suc i) xs ! j = y"
      by (auto simp: in_set_conv_nth)
    then have ji: "j \<le> i" and y: "y = xs ! j" by simp_all
    have "map k xs ! j \<le> map k xs ! i"
      using s ji i by (intro sorted_nth_mono) simp_all
    then show "k y \<le> k (xs ! i)" using ji i y by simp
  qed
  have "Suc i = length (take (Suc i) xs)" using i by simp
  also have "\<dots> = length (filter (\<lambda>y. k y \<le> k (xs ! i)) (take (Suc i) xs))"
    using all by (simp add: filter_id_conv [THEN iffD2])
  also have "\<dots> \<le> length (filter (\<lambda>y. k y \<le> k (xs ! i)) (take (Suc i) xs @ drop (Suc i) xs))"
    by (simp only: filter_append length_append le_add1)
  also have "\<dots> = length (filter (\<lambda>y. k y \<le> k (xs ! i)) xs)"
    by (simp only: append_take_drop_id)
  finally show ?thesis by simp
qed

lemma in_take_sort_key:
  assumes x: "x \<in> set xs" and n: "length (filter (\<lambda>y. k y \<le> k x) xs) \<le> n"
  shows "x \<in> set (take n (sort_key k xs))"
proof -
  define ys where "ys = sort_key k xs"
  have "x \<in> set ys" using x by (simp add: ys_def)
  then obtain i where i: "i < length ys" "ys ! i = x" by (auto simp: in_set_conv_nth)
  have "sorted (map k ys)" unfolding ys_def by (rule sorted_sort_key)
  then have "i < length (filter (\<lambda>y. k y \<le> k (ys ! i)) ys)"
    using i(1) by (rule sorted_prefix_count)
  also have "\<dots> = length (filter (\<lambda>y. k y \<le> k x) ys)"
    by (simp only: i(2))
  also have "\<dots> = length (filter (\<lambda>y. k y \<le> k x) xs)"
    unfolding ys_def by (rule mset_eq_length_filter) simp
  finally have "i < n" using n by simp
  then have "i < length (take n ys)" "take n ys ! i = x" using i by simp_all
  then show ?thesis unfolding ys_def [symmetric] by (metis nth_mem)
qed

lemma notin_take_sort_key:
  assumes n: "n \<le> length (filter (\<lambda>y. k y < k x) xs)"
  shows "x \<notin> set (take n (sort_key k xs))"
proof
  define ys where "ys = sort_key k xs"
  assume "x \<in> set (take n (sort_key k xs))"
  then obtain i where i: "i < length (take n ys)" "take n ys ! i = x"
    unfolding ys_def [symmetric] by (auto simp: in_set_conv_nth)
  then have il: "i < length ys" "i < n" and xi: "ys ! i = x" by simp_all
  have s: "sorted (map k ys)" unfolding ys_def by (rule sorted_sort_key)
  have none: "filter (\<lambda>y. k y < k x) (drop i ys) = []"
  proof -
    have "\<not> k y < k x" if "y \<in> set (drop i ys)" for y
    proof -
      from that obtain j where j: "j < length (drop i ys)" "drop i ys ! j = y"
        by (auto simp: in_set_conv_nth)
      then have y: "y = ys ! (i + j)" and ij: "i + j < length ys" by simp_all
      have "map k ys ! i \<le> map k ys ! (i + j)"
        using s ij by (intro sorted_nth_mono) simp_all
      then show ?thesis using il ij y xi by simp
    qed
    then show ?thesis by (simp add: filter_empty_conv)
  qed
  have "length (filter (\<lambda>y. k y < k x) xs) = length (filter (\<lambda>y. k y < k x) ys)"
    unfolding ys_def by (rule mset_eq_length_filter) simp
  also have "\<dots> = length (filter (\<lambda>y. k y < k x) (take i ys @ drop i ys))"
    by (simp only: append_take_drop_id)
  also have "\<dots> = length (filter (\<lambda>y. k y < k x) (take i ys))"
    by (simp only: filter_append none append_Nil2)
  also have "\<dots> \<le> length (take i ys)" by (rule length_filter_le)
  also have "\<dots> \<le> i" by simp
  finally show False using n il(2) by simp
qed

text \<open>
  C9 (as stated in the specification): every completed round of a followed user is in the
  feed, and two runs that differ in the visibility of such a round produce the same feed.
  The query ends with \<^verbatim>\<open>.limit(50)\<close>: of the 51 rounds of \<open>A\<close> the oldest is not in the
  feed of the follower \<open>B\<close>. And each feed entry carries the visibility of its round, so
  the feeds for a private and for a public round differ in that field.
\<close>

theorem C9_limit_and_field_counterexample:
  "''A'' \<in> set (followingIds ''B'' db_51_rounds) \<and>
   mk_round (gen_id CHR ''r'' 1) ''A'' 1 ''private'' \<in> set (sb_rounds db_51_rounds) \<and>
   gen_id CHR ''r'' 1 \<notin> set (map fr_id (loadFeed ''B'' db_51_rounds)) \<and>
   map fr_visibility (loadFeed ''B'' (db_followed ''private'')) = [Some ''private''] \<and>
   map fr_visibility (loadFeed ''B'' (db_followed ''public'')) = [Some ''public''] \<and>
   loadFeed ''B'' (db_followed ''private'') \<noteq> loadFeed ''B'' (db_followed ''public'')"
proof -
  have 1: "''A'' \<in> set (followingIds ''B'' db_51_rounds)" by code_simp
  have 2: "mk_round (gen_id CHR ''r'' 1) ''A'' 1 ''private'' \<in> set (sb_rounds db_51_rounds)"
    by code_simp
  have 3: "gen_id CHR ''r'' 1 \<notin> set (map fr_id (loadFeed ''B'' db_51_rounds))" by code_simp
  have 4: "map fr_visibility (loadFeed ''B'' (db_followed ''private'')) = [Some ''private'']"
    by code_simp
  have 5: "map fr_visibility (loadFeed ''B'' (db_followed ''public'')) = [Some ''public'']"
    by code_simp
  have 6: "loadFeed ''B'' (db_followed ''private'') \<noteq> loadFeed ''B'' (db_followed ''public'')"
    using 4 5 by auto
  show ?thesis using 1 2 3 4 5 6 by blast
qed

text \<open>
  C9 (amended): the follow-based feed loader never reads the visibility of a round when it
  selects and summarises rounds. The query ends with \<^verbatim>\<open>.limit(50)\<close> after ordering by
  \<open>date_played\<close> descending. A completed round of a user the viewer follows with an
  accepted relationship is in the feed whatever its visibility, \<open>private\<close> included,
  provided it is among the 50 most recent completed rounds of the viewer and the followed
  users: at most 50 of them, the round itself counted, were played on its day or later.
  It is not in the feed when 50 or more of them were played on a later day. Two runs that
  differ only in visibility values produce feeds that are equal except for the
  \<open>visibility\<close> field copied onto each entry.
\<close>

theorem C9_feed_ignores_visibility:
  assumes C: "C = filter (\<lambda>r. r_is_complete r = Some True \<and>
                             r_user_id r \<in> set (uid # followingIds uid db)) (sb_rounds db)"
  shows "map (\<lambda>e. e\<lparr>fr_visibility := None\<rparr>)
           (loadFeed uid (db\<lparr>sb_rounds := map (\<lambda>r. r\<lparr>r_visibility := v r\<rparr>) (sb_rounds db)\<rparr>)) =
         map (\<lambda>e. e\<lparr>fr_visibility := None\<rparr>) (loadFeed uid db) \<and>
         map fr_id (loadFeed uid db) = map r_id (take 50 (order_desc r_date_played C)) \<and>
         (r \<in> set (sb_rounds db) \<and> r_is_complete r = Some True \<and>
          r_user_id r \<in> set (followingIds uid db) \<and>
          length (filter (\<lambda>r'. r_date_played r \<le> r_date_played r') C) \<le> 50
          \<longrightarrow> r_id r \<in> set (map fr_id (loadFeed uid db)) \<and>
              (\<exists>e \<in> set (loadFeed uid db). fr_id e = r_id r \<and> fr_visibility e = r_visibility r)) \<and>
         (50 \<le> length (filter (\<lambda>r'. r_date_played r < r_date_played r') C)
          \<longrightarrow> r \<notin> set (feed_roundsData uid db))"
proof (intro conjI)
  have fd: "feed_roundsData uid db = take 50 (sort_key (\<lambda>r. - r_date_played r) C)"
    by (simp add: feed_roundsData_def Let_def order_desc_def C)
  show "map (\<lambda>e. e\<lparr>fr_visibility := None\<rparr>)
     (loadFeed uid (db\<lparr>sb_rounds := map (\<lambda>r. r\<lparr>r_visibility := v r\<rparr>) (sb_rounds db)\<rparr>)) =
   map (\<lambda>e. e\<lparr>fr_visibility := None\<rparr>) (loadFeed uid db)"
    unfolding loadFeed_def Let_def feed_roundsData_visibility
    by (auto simp: comp_def split: option.splits)
  show "map fr_id (loadFeed uid db) = map r_id (take 50 (order_desc r_date_played C))"
    unfolding map_fr_id_loadFeed fd order_desc_def ..
  show "r \<in> set (sb_rounds db) \<and> r_is_complete r = Some True \<and>
          r_user_id r \<in> set (followingIds uid db) \<and>
          length (filter (\<lambda>r'. r_date_played r \<le> r_date_played r') C) \<le> 50
          \<longrightarrow> r_id r \<in> set (map fr_id (loadFeed uid db)) \<and>
              (\<exists>e \<in> set (loadFeed uid db). fr_id e = r_id r \<and> fr_visibility e = r_visibility r)"
  proof
    assume a: "r \<in> set (sb_rounds db) \<and> r_is_complete r = Some True \<and>
          r_user_id r \<in> set (followingIds uid db) \<and>
          length (filter (\<lambda>r'. r_date_played r \<le> r_date_played r') C) \<le> 50"
    then have rC: "r \<in> set C" by (simp add: C)
    have "length (filter (\<lambda>y. - r_date_played y \<le> - r_date_played r) C) \<le> 50"
      using a by simp
    with rC have "r \<in> set (take 50 (sort_key (\<lambda>r. - r_date_played r) C))"
      by (rule in_take_sort_key)
    then have m: "r \<in> set (feed_roundsData uid db)" by (simp only: fd)
    then have 1: "r_id r \<in> set (map fr_id (loadFeed uid db))"
      unfolding map_fr_id_loadFeed by simp
    have 2: "\<exists>e \<in> set (loadFeed uid db). fr_id e = r_id r \<and> fr_visibility e = r_visibility r"
      using m unfolding loadFeed_def Let_def by (intro bexI [where x = "_ r"]) auto
    show "r_id r \<in> set (map fr_id (loadFeed uid db)) \<and>
          (\<exists>e \<in> set (loadFeed uid db). fr_id e = r_id r \<and> fr_visibility e = r_visibility r)"
      using 1 2 ..
  qed
  show "50 \<le> length (filter (\<lambda>r'. r_date_played r < r_date_played r') C)
          \<longrightarrow> r \<notin> set (feed_roundsData uid db)"
  proof
    assume "50 \<le> length (filter (\<lambda>r'. r_date_played r < r_date_played r') C)"
    then have "50 \<le> length (filter (\<lambda>y. - r_date_played y < - r_date_played r) C)"
      by simp
    then show "r \<notin> set (feed_roundsData uid db)"
      unfolding fd by (rule notin_take_sort_key)
  qed
qed

theorem C9_feed_ignores_visibility_witness:
  "mk_round (gen_id CHR ''r'' 2) ''A'' 2 ''private'' \<in> set (sb_rounds db_51_rounds) \<and>
   ''A'' \<in> set (followingIds ''B'' db_51_rounds) \<and>
   length (filter (\<lambda>r'. 2 \<le> r_date_played r')
     (filter (\<lambda>r. r_is_complete r = Some True \<and>
                   r_user_id r \<in> set (''B'' # followingIds ''B'' db_51_rounds))
             (sb_rounds db_51_rounds))) = 50 \<and>
   gen_id CHR ''r'' 2 \<in> set (map fr_id (loadFeed ''B'' db_51_rounds)) \<and>
   length (filter (\<lambda>r'. 1 < r_date_played r')
     (filter (\<lambda>r. r_is_complete r = Some True \<and>
                   r_user_id r \<in> set (''B'' # followingIds ''B'' db_51_rounds))
             (sb_rounds db_51_rounds))) = 50 \<and>
   mk_round (gen_id CHR ''r'' 1) ''A'' 1 ''private'' \<notin> set (feed_roundsData ''B'' db_51_rounds) \<and>
   map (\<lambda>e. e\<lparr>fr_visibility := None\<rparr>) (loadFeed ''B'' (db_followed ''public'')) =
   map (\<lambda>e. e\<lparr>fr_visibility := None\<rparr>) (loadFeed ''B'' (db_followed ''private''))"
proof -
  define C where "C = filter (\<lambda>r. r_is_complete r = Some True \<and>
                   r_user_id r \<in> set (''B'' # followingIds ''B'' db_51_rounds))
             (sb_rounds db_51_rounds)"
  define r2 where "r2 = mk_round (gen_id CHR ''r'' 2) ''A'' 2 ''private''"
  define r1 where "r1 = mk_round (gen_id CHR ''r'' 1) ''A'' 1 ''private''"
  have 1: "r2 \<in> set (sb_rounds db_51_rounds)" unfolding r2_def by code_simp
  have 2: "r_is_complete r2 = Some True" "r_date_played r2 = 2" "r_id r2 = gen_id CHR ''r'' 2"
    unfolding r2_def by code_simp+
  have 3: "r_user_id r2 \<in> set (followingIds ''B'' db_51_rounds)"
    unfolding r2_def by code_simp
  have 4: "length (filter (\<lambda>r'. 2 \<le> r_date_played r') C) = 50" unfolding C_def by code_simp
  have 5: "length (filter (\<lambda>r'. 1 < r_date_played r') C) = 50" unfolding C_def by code_simp
  have 6: "r_date_played r1 = 1" unfolding r1_def by code_simp
  have 7: "''A'' \<in> set (followingIds ''B'' db_51_rounds)" by code_simp
  have 8: "db_followed ''public'' =
     (db_followed ''private'')\<lparr>sb_rounds :=
        map (\<lambda>r. r\<lparr>r_visibility := Some ''public''\<rparr>) (sb_rounds (db_followed ''private''))\<rparr>"
    by (simp add: db_followed_def mk_db_def mk_round_def)
  have a: "gen_id CHR ''r'' 2 \<in> set (map fr_id (loadFeed ''B'' db_51_rounds))"
    using C9_feed_ignores_visibility [OF C_def, where r = r2, THEN conjunct2, THEN conjunct2,
        THEN conjunct1] 1 2 3 4
    by simp
  have b: "r1 \<notin> set (feed_roundsData ''B'' db_51_rounds)"
    using C9_feed_ignores_visibility [OF C_def, where r = r1, THEN conjunct2, THEN conjunct2,
        THEN conjunct2] 5 6
    by simp
  have c: "map (\<lambda>e. e\<lparr>fr_visibility := None\<rparr>) (loadFeed ''B'' (db_followed ''public'')) =
     map (\<lambda>e. e\<lparr>fr_visibility := None\<rparr>) (loadFeed ''B'' (db_followed ''private''))"
    using C9_feed_ignores_visibility [OF refl, where uid = "''B''"
        and db = "db_followed ''private''" and v = "\<lambda>r. Some ''public''", THEN conjunct1]
    unfolding 8 [symmetric] by simp
  show ?thesis
    using 1 4 5 7 a b c unfolding C_def r1_def r2_def by simp
qed

section \<open>C10: the miss direction of a saved hole\<close>

lemma scoreInsert_miss_dir:
  "scoreInsert st roundId i = Inr row \<Longrightarrow>
   i_fairway_hit row \<noteq> Some False \<longrightarrow> i_fairway_miss_dir row = None"
  unfolding scoreInsert_def by (auto split: option.splits)

lemma scoreInserts_miss_dir:
  "scoreInserts st roundId idxs = Inr rows \<Longrightarrow>
   \<forall>row \<in> set rows. i_fairway_hit row \<noteq> Some False \<longrightarrow> i_fairway_miss_dir row = None"
proof (induction idxs arbitrary: rows)
  case Nil
  then show ?case by simp
next
  case (Cons i rest)
  from Cons.prems obtain row rows' where
    r: "scoreInsert st roundId i = Inr row" and
    rs: "scoreInserts st roundId rest = Inr rows'" and
    e: "rows = row # rows'"
    by (auto split: sum.splits)
  show ?case
    unfolding e using scoreInsert_miss_dir [OF r] Cons.IH [OF rs] by simp
qed

text \<open>
  C10: every hole record that the round-save operation writes has \<open>fairway_miss_dir\<close> null
  unless its \<open>fairway_hit\<close> is exactly \<open>false\<close>; and the hole-entry update clears
  \<open>fairway_miss_dir\<close> of the entry whenever \<open>fairway_hit\<close> is set to a value other than
  \<open>false\<close>.
\<close>

theorem C10_miss_dir:
  "(the_scores (saveRound uid courseId roundId st) = Inr rows \<longrightarrow>
      (\<forall>row \<in> set rows. i_fairway_hit row \<noteq> Some False \<longrightarrow> i_fairway_miss_dir row = None)) \<and>
   (v \<noteq> Some False \<and> js_index prev idx = Some e \<longrightarrow>
      updateHoleEntry tm idx (F_fairway_hit v) prev =
        Inr (prev[nat idx := e\<lparr>fairway_hit := v, fairway_miss_dir := None\<rparr>]))"
proof
  show "the_scores (saveRound uid courseId roundId st) = Inr rows \<longrightarrow>
      (\<forall>row \<in> set rows. i_fairway_hit row \<noteq> Some False \<longrightarrow> i_fairway_miss_dir row = None)"
    using scoreInserts_miss_dir [of st roundId "activeIndices st" rows]
    by (simp add: saveRound_def)
  show "v \<noteq> Some False \<and> js_index prev idx = Some e \<longrightarrow>
      updateHoleEntry tm idx (F_fairway_hit v) prev =
        Inr (prev[nat idx := e\<lparr>fairway_hit := v, fairway_miss_dir := None\<rparr>])"
    by (simp add: updateHoleEntry_def update_entry_def)
qed

theorem C10_miss_dir_witness:
  "map fairway_miss_dir (holeEntries log_example) = [None, Some ''L'', Some ''R''] \<and>
   map fairway_hit (holeEntries log_example) = [Some True, Some False, None] \<and>
   (case the_scores (saveRound ''u1'' ''c1'' ''r1'' log_example) of
      Inl err \<Rightarrow> False
    | Inr rows \<Rightarrow> map i_fairway_miss_dir rows = [None, Some ''L'', None] \<and>
        (\<forall>row \<in> set rows. i_fairway_hit row \<noteq> Some False \<longrightarrow> i_fairway_miss_dir row = None)) \<and>
   (case updateHoleEntry basic 1 (F_fairway_hit (Some True)) (holeEntries log_example) of
      Inl err \<Rightarrow> False
    | Inr next \<Rightarrow> map fairway_miss_dir next = [None, None, Some ''R''])"
proof -
  have a: "map fairway_miss_dir (holeEntries log_example) = [None, Some ''L'', Some ''R'']"
    "map fairway_hit (holeEntries log_example) = [Some True, Some False, None]"
    by code_simp+
  have "case the_scores (saveRound ''u1'' ''c1'' ''r1'' log_example) of
          Inl err \<Rightarrow> False
        | Inr rows \<Rightarrow> map i_fairway_miss_dir rows = [None, Some ''L'', None]"
    by code_simp
  then obtain rows where r: "the_scores (saveRound ''u1'' ''c1'' ''r1'' log_example) = Inr rows"
    and m: "map i_fairway_miss_dir rows = [None, Some ''L'', None]"
    by (auto split: sum.splits)
  have "map_option fairway_hit (js_index (holeEntries log_example) 1) = Some (Some False)"
    by code_simp
  then obtain e where e: "js_index (holeEntries log_example) 1 = Some e" by auto
  have v: "Some True \<noteq> Some False" by simp
  note t = C10_miss_dir [of "''u1''" "''c1''" "''r1''" log_example rows "Some True"
      "holeEntries log_example" 1 e basic]
  have t1: "\<forall>row \<in> set rows. i_fairway_hit row \<noteq> Some False \<longrightarrow> i_fairway_miss_dir row = None"
    using t r by blast
  have t2: "updateHoleEntry basic 1 (F_fairway_hit (Some True)) (holeEntries log_example) =
        Inr ((holeEntries log_example)[nat 1 := e\<lparr>fairway_hit := Some True, fairway_miss_dir := None\<rparr>])"
    using t v e by blast
  have "map fairway_miss_dir
          ((holeEntries log_example)[nat 1 := e\<lparr>fairway_hit := Some True, fairway_miss_dir := None\<rparr>]) =
        [None, None, Some ''R'']"
    unfolding map_update a by simp
  then show ?thesis using a r m t1 t2 by simp
qed

end
